theory Spec2Isabelle
  imports Complex_Main "HOL-Library.Word"
begin

section \<open>Values of the Python program\<close>

text \<open>
  The exceptions that \<^verbatim>\<open>OccupancyModel.py\<close> can raise.  \<open>KeyError\<close> and
  \<open>IndexError\<close> come from the dictionary and array look-ups of \<^verbatim>\<open>run\<close> (both are
  subclasses of Python's \<open>LookupError\<close>), \<open>TypeError\<close> from subscripting \<open>None\<close>,
  \<open>ValueError\<close> (with its message) from the two guarded properties, and
  \<open>InvalidInputError\<close> from the discrete sampler.
\<close>

datatype error = KeyError | IndexError | TypeError | ValueError string | InvalidInputError

fun is_LookupError :: "error \<Rightarrow> bool" where
  "is_LookupError KeyError = True"
| "is_LookupError IndexError = True"
| "is_LookupError _ = False"

text \<open>
  A two-dimensional numpy array: \<open>ncols\<close> columns, and the rows in order, each of
  \<open>ncols\<close> entries.  The probabilities are floats in the program; they are rationals
  here.
\<close>

record ndarray2 =
  ncols :: nat
  rows :: "rat list list"

text \<open>\<^verbatim>\<open>a[:, c]\<close>: a negative index counts from the last column.\<close>

definition np_col :: "ndarray2 \<Rightarrow> int \<Rightarrow> error + rat list" where
  "np_col a c =
     (let n = int (ncols a)
      in if - n \<le> c \<and> c < n then Inr (map (\<lambda>r. r ! nat (c mod n)) (rows a))
         else Inl IndexError)"

text \<open>\<^verbatim>\<open>a[i, 2:]\<close>: a negative index counts from the last row.\<close>

definition np_row_from2 :: "ndarray2 \<Rightarrow> int \<Rightarrow> error + rat list" where
  "np_row_from2 a i =
     (let n = int (length (rows a))
      in if - n \<le> i \<and> i < n then Inr (drop 2 (rows a ! nat (i mod n)))
         else Inl IndexError)"

text \<open>\<^verbatim>\<open>str(n)\<close> for an integer.\<close>

fun str_nat :: "nat \<Rightarrow> string" where
  "str_nat n =
     (if n < 10 then [char_of (48 + n)]
      else str_nat (n div 10) @ [char_of (48 + n mod 10)])"

definition str :: "int \<Rightarrow> string" where
  "str i = (if i < 0 then CHR ''-'' # str_nat (nat (- i)) else str_nat (nat i))"

text \<open>
  \<^verbatim>\<open>math.fmod\<close> and \<^verbatim>\<open>np.fmod\<close> on integers: the remainder of the division that
  truncates towards zero, so its sign is the sign of the dividend.  \<^verbatim>\<open>np.fmod\<close> of
  an integer array by 0 gives 0 (with a warning).
\<close>

definition fmod :: "int \<Rightarrow> int \<Rightarrow> int" where
  "fmod a b = (if b = 0 then 0 else sgn a * (\<bar>a\<bar> mod \<bar>b\<bar>))"

text \<open>
  \<^verbatim>\<open>np.floor(s / d).astype(int)\<close>.  The division is the true division; for
  \<open>d = 0\<close> numpy warns, the quotient is infinite or not a number, and the cast to a
  64-bit integer gives the least one.
\<close>

definition floor_div_astype_int :: "int \<Rightarrow> int \<Rightarrow> int" where
  "floor_div_astype_int s d = (if d = 0 then - (2 ^ 63) else s div d)"

section \<open>The process-wide random source\<close>

text \<open>
  The state of \<^verbatim>\<open>np.random\<close>: the stream of draws that the current seed fixes, and
  how many of them have been consumed.  A draw is a float in \<open>[0, 1)\<close> with 53 bits.
\<close>

record rng =
  stream :: "nat \<Rightarrow> 53 word"
  pos :: nat

definition np_random :: "rng \<Rightarrow> rat \<times> rng" where
  "np_random g = (of_nat (unat (stream g (pos g))) / 2 ^ 53, g\<lparr>pos := pos g + 1\<rparr>)"

text \<open>
  \<^verbatim>\<open>OccupancyModel.set_seed\<close> calls \<^verbatim>\<open>np.random.seed(seed)\<close>: the generator
  \<open>gen\<close> of numpy (a parameter here) fixes the stream from the seed, whatever the
  state was before.
\<close>

definition set_seed :: "(int \<Rightarrow> nat \<Rightarrow> 53 word) \<Rightarrow> int \<Rightarrow> rng \<Rightarrow> rng" where
  "set_seed gen seed g = \<lparr>stream = gen seed, pos = 0\<rparr>"

text \<open>A call either raises, or returns a value; both leave a state of the random source.\<close>

type_synonym 'a result = "(error \<times> rng) + ('a \<times> rng)"

section \<open>The discrete sampler\<close>

text \<open>
  Modelled from the spec: the class \<^verbatim>\<open>DPD\<close> of \<^verbatim>\<open>tsorb.utils.DPD\<close> is imported by
  \<^verbatim>\<open>OccupancyModel.py\<close> and is not among the sources.  The spec (4.1): build the
  cumulative sum of the weights; draw \<open>u\<close> uniformly from \<open>[0, total)\<close>; return the
  smallest index whose cumulative sum exceeds \<open>u\<close>; a non-positive total is an
  \<open>InvalidInputError\<close>; one draw of the random source is consumed.
\<close>

fun first_exceeding :: "rat \<Rightarrow> rat \<Rightarrow> nat \<Rightarrow> rat list \<Rightarrow> nat option" where
  "first_exceeding u acc i [] = None"
| "first_exceeding u acc i (w # ws) =
     (if u < acc + w then Some i else first_exceeding u (acc + w) (i + 1) ws)"

definition get_random_interval :: "rat list \<Rightarrow> rng \<Rightarrow> int result" where
  "get_random_interval weights g =
     (let total = sum_list weights
      in if total \<le> 0 then Inl (InvalidInputError, g)
         else (case np_random g of (r, g') \<Rightarrow>
                (case first_exceeding (r * total) 0 0 weights of
                   Some i \<Rightarrow> Inr (int i, g')
                 | None \<Rightarrow> Inl (InvalidInputError, g'))))"

section \<open>The occupancy model\<close>

text \<open>
  The data provider, as far as \<^verbatim>\<open>OccupancyModel\<close> reads it: four properties, each
  a dictionary from a key to an array.
\<close>

record DataExchange =
  get_four_state_start_state :: "string \<rightharpoonup> ndarray2"
  get_four_state_trans_data :: "string \<rightharpoonup> ndarray2"
  get_occ_start_states_data :: "string \<rightharpoonup> ndarray2"
  get_occ_act_trans_data :: "string \<rightharpoonup> ndarray2"

text \<open>The instance; the field \<open>self_x\<close> is the attribute \<^verbatim>\<open>self._x\<close>.\<close>

record OccupancyModel =
  self_data_ex :: DataExchange
  self_residents :: int
  self_four_states :: bool
  self_has_run :: bool
  self_states :: "int list option"
  self_start_state :: "string \<rightharpoonup> ndarray2"
  self_occ_act_trans_data :: "string \<rightharpoonup> ndarray2"
  occ_activity :: "int list"
  occ_no_activity :: "int list"

text \<open>
  \<^verbatim>\<open>__init__\<close>.  No statement of the constructor raises; the result type has the
  error side all the same, so that this can be stated.
\<close>

definition init :: "DataExchange \<Rightarrow> int \<Rightarrow> bool \<Rightarrow> error + OccupancyModel" where
  "init data_ex residents four_states =
     Inr \<lparr>self_data_ex = data_ex,
          self_residents = residents,
          self_four_states = four_states,
          self_has_run = False,
          self_states = None,
          self_start_state =
            (if four_states then get_four_state_start_state data_ex
             else get_occ_start_states_data data_ex),
          self_occ_act_trans_data =
            (if four_states then get_four_state_trans_data data_ex
             else get_occ_act_trans_data data_ex),
          occ_activity = replicate 144 0,
          occ_no_activity = replicate 144 0\<rparr>"

definition get_residents :: "OccupancyModel \<Rightarrow> int" where
  "get_residents self = self_residents self"

definition run_first_msg :: string where
  "run_first_msg = ''Function \"run\" of OccupancyModel needs to be called first.''"

definition four_state_msg :: string where
  "four_state_msg =
     ''Just a four state occupancy model can return'' @
     ''these states. Please set four_states parameter to True.''"

definition get_occ_no_activity :: "OccupancyModel \<Rightarrow> error + int list" where
  "get_occ_no_activity self =
     (if \<not> self_has_run self then Inl (ValueError run_first_msg)
      else if \<not> self_four_states self then Inl (ValueError four_state_msg)
      else Inr (occ_no_activity self))"

definition get_occ_activity :: "OccupancyModel \<Rightarrow> error + int list" where
  "get_occ_activity self =
     (if \<not> self_has_run self then Inl (ValueError run_first_msg)
      else Inr (occ_activity self))"

subsection \<open>run\<close>

text \<open>
  Lines 82 and 83: the column of the start-state table for the resident count, and
  the transition table under the key \<^verbatim>\<open>day_of_week + str(residents)\<close>.
\<close>

definition get_tables :: "OccupancyModel \<Rightarrow> string \<Rightarrow> error + (rat list \<times> ndarray2)" where
  "get_tables self day_of_week =
     (case self_start_state self day_of_week of
        None \<Rightarrow> Inl KeyError
      | Some tbl \<Rightarrow>
          (case np_col tbl (self_residents self - 1) of
             Inl e \<Rightarrow> Inl e
           | Inr start_state \<Rightarrow>
               (case self_occ_act_trans_data self (day_of_week @ str (self_residents self)) of
                  None \<Rightarrow> Inl KeyError
                | Some act_transition \<Rightarrow> Inr (start_state, act_transition))))"

text \<open>\<^verbatim>\<open>self._states[-1]\<close>.\<close>

definition last_state :: "int list option \<Rightarrow> error + int" where
  "last_state st =
     (case st of
        None \<Rightarrow> Inl TypeError
      | Some xs \<Rightarrow> (if xs = [] then Inl IndexError else Inr (last xs)))"

text \<open>
  Lines 84 to 98: the jump between the row blocks of two intervals and the state the
  chain starts from.  The start index is drawn in both branches, before the test of
  \<^verbatim>\<open>_has_run\<close>.
\<close>

definition start_of :: "OccupancyModel \<Rightarrow> rat list \<Rightarrow> rng \<Rightarrow> (int \<times> int) result" where
  "start_of self start_state g =
     (case (if self_four_states self
            then (case get_random_interval start_state g of
                    Inl e \<Rightarrow> Inl e
                  | Inr (start_ix, g') \<Rightarrow>
                      Inr (((self_residents self + 1) ^ 2,
                            (self_residents self + 1) * (start_ix div 7) + fmod start_ix 7), g'))
            else (case get_random_interval start_state g of
                    Inl e \<Rightarrow> Inl e
                  | Inr (start_ix, g') \<Rightarrow> Inr ((7, start_ix), g')))
      of Inl e \<Rightarrow> Inl e
       | Inr ((num_row_jump, state), g') \<Rightarrow>
           (if self_has_run self
            then (case last_state (self_states self) of
                    Inl e \<Rightarrow> Inl (e, g')
                  | Inr s \<Rightarrow> Inr ((num_row_jump, s), g'))
            else Inr ((num_row_jump, state), g')))"

text \<open>Lines 102 to 106: the loop over the intervals, here the list \<open>[0..<144]\<close>.\<close>

fun run_loop :: "ndarray2 \<Rightarrow> int \<Rightarrow> nat list \<Rightarrow> int \<Rightarrow> int list \<Rightarrow> rng
    \<Rightarrow> (int \<times> int list) result" where
  "run_loop act_transition num_row_jump [] state states g = Inr ((state, states), g)"
| "run_loop act_transition num_row_jump (interval # rest) state states g =
     (case np_row_from2 act_transition (num_row_jump * int interval + state) of
        Inl e \<Rightarrow> Inl (e, g)
      | Inr row \<Rightarrow>
          (case get_random_interval row g of
             Inl e \<Rightarrow> Inl e
           | Inr (state', g') \<Rightarrow>
               run_loop act_transition num_row_jump rest state' (states[interval := state']) g'))"

text \<open>Lines 109 to 118: the results are stored in the instance.\<close>

definition save_results :: "OccupancyModel \<Rightarrow> int list \<Rightarrow> OccupancyModel" where
  "save_results self states =
     (if self_four_states self
      then (let home = map (\<lambda>s. floor_div_astype_int s (self_residents self + 1)) states;
                active = map (\<lambda>s. fmod s (self_residents self + 1)) states
            in self\<lparr>occ_activity := map2 min home active,
                    occ_no_activity := map2 (\<lambda>h a. max (h - a) 0) home active,
                    self_states := Some states,
                    self_has_run := True\<rparr>)
      else self\<lparr>occ_activity := states,
                self_states := Some states,
                self_has_run := True\<rparr>)"

definition run :: "OccupancyModel \<Rightarrow> string \<Rightarrow> rng \<Rightarrow> OccupancyModel result" where
  "run self day_of_week g =
     (case get_tables self day_of_week of
        Inl e \<Rightarrow> Inl (e, g)
      | Inr (start_state, act_transition) \<Rightarrow>
          (case start_of self start_state g of
             Inl e \<Rightarrow> Inl e
           | Inr ((num_row_jump, state), g1) \<Rightarrow>
               (case run_loop act_transition num_row_jump [0..<144] state
                       ((replicate 144 0)[0 := state]) g1 of
                  Inl e \<Rightarrow> Inl e
                | Inr ((state', states), g2) \<Rightarrow> Inr (save_results self states, g2))))"

section \<open>Concrete inputs\<close>

text \<open>
  A transition table of \<open>n\<close> rows: two label columns, then \<open>k\<close> equal weights.
\<close>

definition uniform_trans :: "nat \<Rightarrow> nat \<Rightarrow> ndarray2" where
  "uniform_trans n k = \<lparr>ncols = k + 2, rows = replicate n (0 # 0 # replicate k 1)\<rparr>"

text \<open>Start-state tables of one column, with all the weight on one index.\<close>

definition start7 :: ndarray2 where
  "start7 = \<lparr>ncols = 1, rows = [[0], [0], [0], [1], [0], [0], [0]]\<rparr>"

definition start4 :: ndarray2 where
  "start4 =
     \<lparr>ncols = 1,
      rows =
       [[0], [0], [0], [0], [0], [0], [0],
        [0], [1], [0], [0], [0], [0], [0],
        [0], [0], [0], [0], [0], [0], [0],
        [0], [0], [0], [0], [0], [0], [0],
        [0], [0], [0], [0], [0], [0], [0],
        [0], [0], [0], [0], [0], [0], [0],
        [0], [0], [0], [0], [0], [0], [0]]\<rparr>"

definition data_ex1 :: DataExchange where
  "data_ex1 =
     \<lparr>get_four_state_start_state = [''wd'' \<mapsto> start4],
      get_four_state_trans_data = [''wd1'' \<mapsto> uniform_trans 576 4],
      get_occ_start_states_data = [''wd'' \<mapsto> start7],
      get_occ_act_trans_data = [''wd1'' \<mapsto> uniform_trans 1008 7, ''wd0'' \<mapsto> uniform_trans 1008 7]\<rparr>"

text \<open>A random source whose draws are all 0, but for the draw at position 146, which is 1/2.\<close>

definition rng_ex :: rng where
  "rng_ex = \<lparr>stream = (\<lambda>n. if n = 146 then 2 ^ 52 else 0), pos = 0\<rparr>"

text \<open>The instances constructed from these tables.\<close>

definition sim4 :: OccupancyModel where
  "sim4 = projr (init data_ex1 1 True)"

definition sim7 :: OccupancyModel where
  "sim7 = projr (init data_ex1 1 False)"

definition sim0 :: OccupancyModel where
  "sim0 = projr (init data_ex1 0 False)"

text \<open>The instances after a first day, and the random source then.\<close>

definition sim4_day1 :: OccupancyModel where
  "sim4_day1 = fst (projr (run sim4 ''wd'' rng_ex))"

definition sim7_day1 :: OccupancyModel where
  "sim7_day1 = fst (projr (run sim7 ''wd'' rng_ex))"

definition rng_day1 :: rng where
  "rng_day1 = rng_ex\<lparr>pos := 145\<rparr>"

text \<open>The seven-state instance after a second day.\<close>

definition rng_day2 :: rng where
  "rng_day2 = rng_ex\<lparr>pos := 290\<rparr>"

definition sim7_day2 :: OccupancyModel where
  "sim7_day2 = fst (projr (run sim7_day1 ''wd'' rng_day1))"

text \<open>
  Instances with a resident count below 1, and a provider whose start-state weights are
  all 0.
\<close>

definition sim0_day1 :: OccupancyModel where
  "sim0_day1 = fst (projr (run sim0 ''wd'' rng_ex))"

definition sim_neg :: OccupancyModel where
  "sim_neg = projr (init data_ex1 (- 5) False)"

definition data_ex_zero :: DataExchange where
  "data_ex_zero =
     \<lparr>get_four_state_start_state = Map.empty,
      get_four_state_trans_data = Map.empty,
      get_occ_start_states_data = [''wd'' \<mapsto> \<lparr>ncols = 1, rows = [[0]]\<rparr>],
      get_occ_act_trans_data = [''wd0'' \<mapsto> uniform_trans 1008 7]\<rparr>"

definition sim_zero :: OccupancyModel where
  "sim_zero = projr (init data_ex_zero 0 False)"

text \<open>
  A random source whose draws at positions 1 and 2 are 3/4 and 1/2 and all others 0,
  and the instances after a day run from it.
\<close>

definition rng_mix :: rng where
  "rng_mix = \<lparr>stream = (\<lambda>n. if n = 1 then 3 * 2 ^ 51 else if n = 2 then 2 ^ 52 else 0), pos = 0\<rparr>"

definition rng_mix_day1 :: rng where
  "rng_mix_day1 = rng_mix\<lparr>pos := 145\<rparr>"

definition sim4_mix :: OccupancyModel where
  "sim4_mix = fst (projr (run sim4 ''wd'' rng_mix))"

definition sim7_mix :: OccupancyModel where
  "sim7_mix = fst (projr (run sim7 ''wd'' rng_mix))"

text \<open>A provider with tables for the resident count -1, and the instance for it.\<close>

definition data_ex_neg :: DataExchange where
  "data_ex_neg =
     \<lparr>get_four_state_start_state = Map.empty,
      get_four_state_trans_data = Map.empty,
      get_occ_start_states_data =
        [''wd'' \<mapsto> \<lparr>ncols = 2, rows = [[0, 0], [0, 0], [0, 0], [1, 0], [0, 0], [0, 0], [0, 0]]\<rparr>],
      get_occ_act_trans_data = [''wd-1'' \<mapsto> uniform_trans 1008 7]\<rparr>"

definition sim_m1 :: OccupancyModel where
  "sim_m1 = projr (init data_ex_neg (- 1) False)"

section \<open>The sampler returns an index and consumes one draw\<close>

lemma first_exceeding_range:
  "first_exceeding u acc i ws = Some k \<Longrightarrow> i \<le> k \<and> k < i + length ws"
  by (induction ws arbitrary: acc i) (fastforce split: if_splits)+

lemma first_exceeding_Some:
  "\<not> u < acc \<Longrightarrow> u < acc + sum_list ws \<Longrightarrow> \<exists>k. first_exceeding u acc i ws = Some k"
  by (induction ws arbitrary: acc i) (auto simp: add.assoc)

lemma draw_range:
  fixes w :: "53 word"
  shows "0 \<le> (of_nat (unat w) / 2 ^ 53 :: rat) \<and> (of_nat (unat w) / 2 ^ 53 :: rat) < 1"
proof -
  have frac: "0 \<le> x / 2 ^ 53 \<and> x / 2 ^ 53 < 1" if "0 \<le> x" "x < 2 ^ 53" for x :: rat
    using that by simp
  have "unat w < 2 ^ 53" using unsigned_less [of w] by simp
  then have "(of_nat (unat w) :: rat) < of_nat (2 ^ 53)" by (simp only: of_nat_less_iff)
  then have "(of_nat (unat w) :: rat) < 2 ^ 53" by (simp only: of_nat_power of_nat_numeral)
  moreover have "0 \<le> (of_nat (unat w) :: rat)" by (rule of_nat_0_le_iff)
  ultimately show ?thesis by (rule frac [rotated])
qed

lemma get_random_interval_Inr:
  assumes "get_random_interval ws g = Inr (s, g')"
  shows "0 \<le> s \<and> s < int (length ws) \<and> g' = g\<lparr>pos := pos g + 1\<rparr> \<and> 0 < sum_list ws"
  using assms first_exceeding_range [of _ 0 0 ws]
  by (auto simp: get_random_interval_def np_random_def Let_def split: if_splits option.splits)

lemma get_random_interval_Inl:
  assumes "get_random_interval ws g = Inl (e, g')"
  shows "e = InvalidInputError \<and> g' = g \<and> sum_list ws \<le> 0"
proof -
  let ?r = "of_nat (unat (stream g (pos g))) / 2 ^ 53 :: rat"
  have r: "0 \<le> ?r" "?r < 1" using draw_range by blast+
  show ?thesis
  proof (cases "sum_list ws \<le> 0")
    case True
    with assms show ?thesis by (simp add: get_random_interval_def)
  next
    case False
    then have pos: "0 < sum_list ws" by simp
    have "?r * sum_list ws < 1 * sum_list ws"
      using r(2) pos by (rule mult_strict_right_mono)
    moreover have "0 \<le> ?r * sum_list ws" using r(1) pos by simp
    ultimately obtain k where "first_exceeding (?r * sum_list ws) 0 0 ws = Some k"
      using first_exceeding_Some [of "?r * sum_list ws" 0 ws 0] by auto
    with assms False show ?thesis
      by (simp add: get_random_interval_def np_random_def)
  qed
qed

lemma get_random_interval_total:
  assumes "0 < sum_list ws"
  shows "\<exists>s. get_random_interval ws g = Inr (s, g\<lparr>pos := pos g + 1\<rparr>)"
proof (cases "get_random_interval ws g")
  case (Inl a)
  then show ?thesis using assms get_random_interval_Inl [of ws g "fst a" "snd a"] by simp
next
  case (Inr b)
  then show ?thesis using get_random_interval_Inr [of ws g "fst b" "snd b"] by (cases b) simp
qed

lemma run_loop_upt:
  "run_loop act jump [a..<a + n] s st g = Inr ((s', st'), g') \<Longrightarrow> a + n \<le> length st \<Longrightarrow>
     g' = g\<lparr>pos := pos g + n\<rparr> \<and> length st' = length st \<and> (\<forall>j<a. st' ! j = st ! j) \<and>
     (\<forall>k<n. \<exists>row. np_row_from2 act (jump * int (a + k) + (if k = 0 then s else st' ! (a + k - 1))) = Inr row
            \<and> get_random_interval row (g\<lparr>pos := pos g + k\<rparr>) = Inr (st' ! (a + k), g\<lparr>pos := pos g + k + 1\<rparr>))"
proof (induction n arbitrary: a s st g)
  case 0
  then show ?case by simp
next
  case (Suc n)
  have upt: "[a..<a + Suc n] = a # [Suc a..<Suc a + n]"
    by (simp add: upt_conv_Cons)
  from Suc.prems(1) obtain row s1 g1 where
    row: "np_row_from2 act (jump * int a + s) = Inr row" and
    draw: "get_random_interval row g = Inr (s1, g1)" and
    rest: "run_loop act jump [Suc a..<Suc a + n] s1 (st[a := s1]) g1 = Inr ((s', st'), g')"
    unfolding upt by (auto split: sum.splits prod.splits)
  from draw have g1: "g1 = g\<lparr>pos := pos g + 1\<rparr>"
    using get_random_interval_Inr by blast
  from Suc.prems(2) have len: "Suc a + n \<le> length (st[a := s1])" by simp
  note ih = Suc.IH [OF rest len]
  from ih have g': "g' = g\<lparr>pos := pos g + Suc n\<rparr>" by (simp add: g1)
  from ih have l: "length st' = length st" by simp
  from ih have keep: "\<forall>j<Suc a. st' ! j = st[a := s1] ! j" by blast
  then have at_a: "st' ! a = s1" using Suc.prems(2) by simp
  from keep have below: "\<forall>j<a. st' ! j = st ! j" by simp
  have steps: "\<exists>row. np_row_from2 act (jump * int (a + k) + (if k = 0 then s else st' ! (a + k - 1))) = Inr row
            \<and> get_random_interval row (g\<lparr>pos := pos g + k\<rparr>) = Inr (st' ! (a + k), g\<lparr>pos := pos g + k + 1\<rparr>)"
    if k: "k < Suc n" for k
  proof (cases k)
    case 0
    then show ?thesis using row draw at_a g1 by simp
  next
    case (Suc k')
    with k have "k' < n" by simp
    with ih obtain row' where
      "np_row_from2 act (jump * int (Suc a + k') + (if k' = 0 then s1 else st' ! (Suc a + k' - 1))) = Inr row'"
      "get_random_interval row' (g1\<lparr>pos := pos g1 + k'\<rparr>) = Inr (st' ! (Suc a + k'), g1\<lparr>pos := pos g1 + k' + 1\<rparr>)"
      by blast
    then show ?thesis using Suc at_a g1 by (cases k') auto
  qed
  from g' l below steps show ?case by blast
qed

section \<open>What a run that returns has done\<close>

lemma fmod_nonneg: "0 \<le> a \<Longrightarrow> 0 < b \<Longrightarrow> fmod a b = a mod b"
  by (cases "a = 0") (simp_all add: fmod_def)

lemma start_of_Inr:
  assumes "start_of self start g = Inr ((jump, s0), g1)"
  shows "\<exists>ix. get_random_interval start g = Inr (ix, g1) \<and> 0 \<le> ix \<and> ix < int (length start) \<and>
           g1 = g\<lparr>pos := pos g + 1\<rparr> \<and>
           jump = (if self_four_states self then (self_residents self + 1) ^ 2 else 7) \<and>
           (if self_has_run self then last_state (self_states self) = Inr s0
            else s0 = (if self_four_states self
                       then (self_residents self + 1) * (ix div 7) + ix mod 7 else ix))"
proof -
  from assms obtain ix where draw: "get_random_interval start g = Inr (ix, g1)"
    by (auto simp: start_of_def split: if_splits sum.splits prod.splits)
  from get_random_interval_Inr [OF draw]
  have ix: "0 \<le> ix" "ix < int (length start)" "g1 = g\<lparr>pos := pos g + 1\<rparr>" by simp_all
  from ix(1) have fm: "fmod ix 7 = ix mod 7" by (simp add: fmod_nonneg)
  from assms draw fm
  have "jump = (if self_four_states self then (self_residents self + 1) ^ 2 else 7) \<and>
           (if self_has_run self then last_state (self_states self) = Inr s0
            else s0 = (if self_four_states self
                       then (self_residents self + 1) * (ix div 7) + ix mod 7 else ix))"
    by (auto simp: start_of_def split: if_splits sum.splits)
  with draw ix show ?thesis by blast
qed

lemma run_Inr:
  assumes "run self day g = Inr (self', g')"
  shows "\<exists>start act jump s0 tr.
           get_tables self day = Inr (start, act) \<and>
           start_of self start g = Inr ((jump, s0), g\<lparr>pos := pos g + 1\<rparr>) \<and>
           self' = save_results self tr \<and> length tr = 144 \<and> g' = g\<lparr>pos := pos g + 145\<rparr> \<and>
           (\<forall>i<144. \<exists>row.
               np_row_from2 act (jump * int i + (if i = 0 then s0 else tr ! (i - 1))) = Inr row \<and>
               get_random_interval row (g\<lparr>pos := pos g + 1 + i\<rparr>) =
                 Inr (tr ! i, g\<lparr>pos := pos g + 1 + i + 1\<rparr>))"
proof -
  from assms obtain start act jump s0 g1 sl tr where
    tabs: "get_tables self day = Inr (start, act)" and
    st: "start_of self start g = Inr ((jump, s0), g1)" and
    loop: "run_loop act jump [0..<0 + 144] s0 ((replicate 144 0)[0 := s0]) g1 = Inr ((sl, tr), g')" and
    self': "self' = save_results self tr"
    by (auto simp: run_def split: sum.splits prod.splits)
  from start_of_Inr [OF st] have g1: "g1 = g\<lparr>pos := pos g + 1\<rparr>" by blast
  have len: "0 + 144 \<le> length ((replicate 144 (0::int))[0 := s0])" by simp
  note L = run_loop_upt [OF loop len]
  from L have g': "g' = g\<lparr>pos := pos g + 145\<rparr>" by (simp add: g1)
  from L have l: "length tr = 144" by simp
  have steps: "\<exists>row.
               np_row_from2 act (jump * int i + (if i = 0 then s0 else tr ! (i - 1))) = Inr row \<and>
               get_random_interval row (g\<lparr>pos := pos g + 1 + i\<rparr>) =
                 Inr (tr ! i, g\<lparr>pos := pos g + 1 + i + 1\<rparr>)" if "i < 144" for i
  proof -
    from L that obtain row where
      "np_row_from2 act (jump * int (0 + i) + (if i = 0 then s0 else tr ! (0 + i - 1))) = Inr row"
      "get_random_interval row (g1\<lparr>pos := pos g1 + i\<rparr>) = Inr (tr ! (0 + i), g1\<lparr>pos := pos g1 + i + 1\<rparr>)"
      by blast
    then show ?thesis by (cases "i = 0") (simp_all add: g1)
  qed
  from tabs st g1 self' l g' steps show ?thesis by blast
qed

lemma run_loop_total:
  assumes "\<forall>i<n. \<forall>s. 0 \<le> s \<and> s < W \<longrightarrow>
             (\<exists>row. np_row_from2 act (jump * int (a + i) + s) = Inr row \<and> 0 < sum_list row \<and>
                    int (length row) \<le> W)"
    and "0 \<le> s" "s < W"
  shows "\<exists>s' st'. run_loop act jump [a..<a + n] s st g = Inr ((s', st'), g\<lparr>pos := pos g + n\<rparr>)"
  using assms
proof (induction n arbitrary: a s st g)
  case 0
  then show ?case by simp
next
  case (Suc n)
  have upt: "[a..<a + Suc n] = a # [Suc a..<Suc a + n]"
    by (simp add: upt_conv_Cons)
  from Suc.prems obtain row where
    row: "np_row_from2 act (jump * int a + s) = Inr row" "0 < sum_list row" "int (length row) \<le> W"
    by force
  from get_random_interval_total [OF row(2)] obtain s1 where
    draw: "get_random_interval row g = Inr (s1, g\<lparr>pos := pos g + 1\<rparr>)" by blast
  from get_random_interval_Inr [OF draw] row(3) have s1: "0 \<le> s1" "s1 < W" by simp_all
  have rows': "\<forall>i<n. \<forall>s. 0 \<le> s \<and> s < W \<longrightarrow>
             (\<exists>row. np_row_from2 act (jump * int (Suc a + i) + s) = Inr row \<and> 0 < sum_list row \<and>
                    int (length row) \<le> W)"
  proof (intro allI impI)
    fix i s assume "i < n" "0 \<le> s \<and> s < W"
    with Suc.prems(1) [rule_format, of "Suc i" s]
    show "\<exists>row. np_row_from2 act (jump * int (Suc a + i) + s) = Inr row \<and> 0 < sum_list row \<and>
                    int (length row) \<le> W" by simp
  qed
  from Suc.IH [OF rows' s1, of "st[a := s1]" "g\<lparr>pos := pos g + 1\<rparr>"]
  obtain s' st' where
    "run_loop act jump [Suc a..<Suc a + n] s1 (st[a := s1]) (g\<lparr>pos := pos g + 1\<rparr>) =
       Inr ((s', st'), g\<lparr>pos := pos g + 1 + n\<rparr>)" by auto
  with row(1) draw show ?case unfolding upt by simp
qed

lemma run_total:
  assumes "get_tables self day = Inr (start, act)"
    and "start_of self start g = Inr ((jump, s0), g1)"
    and "0 \<le> s0" "s0 < W"
    and "\<forall>i<144. \<forall>s. 0 \<le> s \<and> s < W \<longrightarrow>
             (\<exists>row. np_row_from2 act (jump * int i + s) = Inr row \<and> 0 < sum_list row \<and>
                    int (length row) \<le> W)"
  shows "\<exists>self'. run self day g = Inr (self', g\<lparr>pos := pos g + 145\<rparr>)"
proof -
  from start_of_Inr [OF assms(2)] have g1: "g1 = g\<lparr>pos := pos g + 1\<rparr>" by blast
  have rows: "\<forall>i<144. \<forall>s. 0 \<le> s \<and> s < W \<longrightarrow>
             (\<exists>row. np_row_from2 act (jump * int (0 + i) + s) = Inr row \<and> 0 < sum_list row \<and>
                    int (length row) \<le> W)" using assms(5) by simp
  from run_loop_total [OF rows assms(3,4), of "(replicate 144 0)[0 := s0]" g1]
  obtain s' st' where
    "run_loop act jump [0..<0 + 144] s0 ((replicate 144 0)[0 := s0]) g1 =
       Inr ((s', st'), g1\<lparr>pos := pos g1 + 144\<rparr>)" by blast
  then have "run_loop act jump [0..<144] s0 ((replicate 144 0)[0 := s0]) g1 =
       Inr ((s', st'), g\<lparr>pos := pos g + 145\<rparr>)" by (simp add: g1)
  with assms(1,2) show ?thesis by (simp add: run_def)
qed

section \<open>Runs on the concrete inputs\<close>

lemma np_row_from2_uniform:
  assumes "np_row_from2 (uniform_trans n k) idx = Inr row"
  shows "row = replicate k 1"
proof -
  from assms have r: "- int n \<le> idx" "idx < int n"
    by (auto simp: np_row_from2_def uniform_trans_def Let_def split: if_splits)
  then have "0 < int n" by linarith
  then have "nat (idx mod int n) < n" by (simp add: nat_less_iff)
  with assms r show ?thesis
    by (simp add: np_row_from2_def uniform_trans_def Let_def)
qed

lemma np_row_from2_uniform_Inr:
  assumes "0 \<le> idx" "idx < int n"
  shows "np_row_from2 (uniform_trans n k) idx = Inr (replicate k 1)"
proof -
  from assms have "nat (idx mod int n) < n" by (simp add: nat_less_iff)
  with assms show ?thesis
    by (simp add: np_row_from2_def uniform_trans_def Let_def)
qed

lemma sample_uniform_0:
  assumes "stream g (pos g) = 0" "0 < k"
  shows "get_random_interval (replicate k 1) g = Inr (0, g\<lparr>pos := pos g + 1\<rparr>)"
proof -
  from assms(2) obtain k' where k: "k = Suc k'" by (cases k) auto
  show ?thesis using assms(1) unfolding k
    by (simp add: get_random_interval_def np_random_def Let_def sum_list_replicate add_pos_nonneg)
qed

lemma replicate7: "replicate 7 x = [x, x, x, x, x, x, x]"
  by (simp add: numeral_eq_Suc)

lemma sample_uniform_half:
  assumes "stream g (pos g) = 2 ^ 52"
  shows "get_random_interval (replicate 7 1) g = Inr (3, g\<lparr>pos := pos g + 1\<rparr>)"
  using assms by (simp add: get_random_interval_def np_random_def Let_def replicate7)

lemma str_1: "str 1 = ''1''" by code_simp
lemma str_0: "str 0 = ''0''" by code_simp

lemma get_tables_sim7: "get_tables sim7 ''wd'' = Inr (concat (rows start7), uniform_trans 1008 7)"
  by (simp add: get_tables_def sim7_def init_def data_ex1_def np_col_def start7_def str_1)

lemma get_tables_sim0: "get_tables sim0 ''wd'' = Inr (concat (rows start7), uniform_trans 1008 7)"
  by (simp add: get_tables_def sim0_def init_def data_ex1_def np_col_def start7_def str_0)

lemma get_tables_sim4: "get_tables sim4 ''wd'' = Inr (concat (rows start4), uniform_trans 576 4)"
  by (simp add: get_tables_def sim4_def init_def data_ex1_def np_col_def start4_def str_1)

lemma start_of_sim7: "start_of sim7 (concat (rows start7)) rng_ex = Inr ((7, 3), rng_ex\<lparr>pos := 1\<rparr>)"
  by (simp add: start_of_def sim7_def init_def get_random_interval_def np_random_def rng_ex_def start7_def)

lemma start_of_sim0: "start_of sim0 (concat (rows start7)) rng_ex = Inr ((7, 3), rng_ex\<lparr>pos := 1\<rparr>)"
  by (simp add: start_of_def sim0_def init_def get_random_interval_def np_random_def rng_ex_def start7_def)

lemma start_of_sim4: "start_of sim4 (concat (rows start4)) rng_ex = Inr ((4, 3), rng_ex\<lparr>pos := 1\<rparr>)"
  by (simp add: start_of_def sim4_def init_def get_random_interval_def np_random_def rng_ex_def fmod_def start4_def)


lemma uniform_rows_ok:
  assumes "143 * jump + W \<le> int n" "0 \<le> jump" "W = int k" "0 < k"
  shows "\<forall>i<144. \<forall>s. 0 \<le> s \<and> s < W \<longrightarrow>
             (\<exists>row. np_row_from2 (uniform_trans n k) (jump * int i + s) = Inr row \<and> 0 < sum_list row \<and>
                    int (length row) \<le> W)"
proof (intro allI impI)
  fix i :: nat and s :: int
  assume i: "i < 144" and s: "0 \<le> s \<and> s < W"
  from i have "int i \<le> 143" by simp
  with assms(2) have "jump * int i \<le> jump * 143" by (simp add: mult_left_mono)
  with s assms(1) have hi: "jump * int i + s < int n" by simp
  from assms(2) s have lo: "0 \<le> jump * int i + s" by simp
  from np_row_from2_uniform_Inr [OF lo hi, of k] assms(3,4)
  show "\<exists>row. np_row_from2 (uniform_trans n k) (jump * int i + s) = Inr row \<and> 0 < sum_list row \<and>
                    int (length row) \<le> W"
    by (simp add: sum_list_replicate)
qed

lemma run_sim4_ok: "\<exists>self'. run sim4 ''wd'' rng_ex = Inr (self', rng_ex\<lparr>pos := pos rng_ex + 145\<rparr>)"
proof -
  have rows: "\<forall>i<144. \<forall>s. 0 \<le> s \<and> s < 4 \<longrightarrow>
             (\<exists>row. np_row_from2 (uniform_trans 576 4) (4 * int i + s) = Inr row \<and> 0 < sum_list row \<and>
                    int (length row) \<le> 4)"
    by (rule uniform_rows_ok) simp_all
  have "(0::int) \<le> 3" "(3::int) < 4" by simp_all
  then show ?thesis by (rule run_total [OF get_tables_sim4 start_of_sim4 _ _ rows])
qed

lemma rows7: "\<forall>i<144. \<forall>s. 0 \<le> s \<and> s < 7 \<longrightarrow>
             (\<exists>row. np_row_from2 (uniform_trans 1008 7) (7 * int i + s) = Inr row \<and> 0 < sum_list row \<and>
                    int (length row) \<le> 7)"
  by (rule uniform_rows_ok) simp_all

lemma run_sim7_ok: "\<exists>self'. run sim7 ''wd'' rng_ex = Inr (self', rng_ex\<lparr>pos := pos rng_ex + 145\<rparr>)"
proof -
  have "(0::int) \<le> 3" "(3::int) < 7" by simp_all
  then show ?thesis by (rule run_total [OF get_tables_sim7 start_of_sim7 _ _ rows7])
qed

lemma run_sim0_ok: "\<exists>self'. run sim0 ''wd'' rng_ex = Inr (self', rng_ex\<lparr>pos := pos rng_ex + 145\<rparr>)"
proof -
  have "(0::int) \<le> 3" "(3::int) < 7" by simp_all
  then show ?thesis by (rule run_total [OF get_tables_sim0 start_of_sim0 _ _ rows7])
qed

lemma run_sim4: "run sim4 ''wd'' rng_ex = Inr (sim4_day1, rng_day1)"
  using run_sim4_ok by (auto simp: sim4_day1_def rng_day1_def rng_ex_def)

lemma run_sim7: "run sim7 ''wd'' rng_ex = Inr (sim7_day1, rng_day1)"
  using run_sim7_ok by (auto simp: sim7_day1_def rng_day1_def rng_ex_def)

section \<open>Helper facts about the stored results\<close>

lemma run_states:
  assumes "run self day g = Inr (self', g')"
  shows "\<exists>tr. self' = save_results self tr \<and> length tr = 144 \<and> (\<forall>t<144. 0 \<le> tr ! t)"
proof -
  from run_Inr [OF assms] obtain act jump s0 tr where
    self': "self' = save_results self tr" and len: "length tr = 144" and
    steps: "\<forall>i<144. \<exists>row.
               np_row_from2 act (jump * int i + (if i = 0 then s0 else tr ! (i - 1))) = Inr row \<and>
               get_random_interval row (g\<lparr>pos := pos g + 1 + i\<rparr>) =
                 Inr (tr ! i, g\<lparr>pos := pos g + 1 + i + 1\<rparr>)"
    by blast
  have "0 \<le> tr ! t" if "t < 144" for t
    using steps that get_random_interval_Inr by blast
  with self' len show ?thesis by blast
qed

lemma save_results_fields:
  "self_states (save_results self tr) = Some tr"
  "self_has_run (save_results self tr)"
  "self_four_states (save_results self tr) = self_four_states self"
  "self_residents (save_results self tr) = self_residents self"
  "self_start_state (save_results self tr) = self_start_state self"
  "self_occ_act_trans_data (save_results self tr) = self_occ_act_trans_data self"
  by (simp_all add: save_results_def Let_def)

lemma save_results_seven:
  "\<not> self_four_states self \<Longrightarrow> occ_activity (save_results self tr) = tr"
  by (simp add: save_results_def)

lemma save_results_four:
  assumes "self_four_states self" "t < length tr"
  shows "occ_activity (save_results self tr) ! t =
           min (floor_div_astype_int (tr ! t) (self_residents self + 1))
               (fmod (tr ! t) (self_residents self + 1))"
    and "occ_no_activity (save_results self tr) ! t =
           max (floor_div_astype_int (tr ! t) (self_residents self + 1)
                - fmod (tr ! t) (self_residents self + 1)) 0"
  using assms by (simp_all add: save_results_def Let_def)

lemma home_bound:
  fixes s d :: int
  assumes "0 < d" "0 \<le> s" "s < d ^ 2"
  shows "0 \<le> s div d \<and> s div d < d"
proof -
  have eq: "d * (s div d) + s mod d = s" by simp
  have m: "0 \<le> s mod d" using assms(1) by simp
  have "s div d < d"
  proof (rule ccontr)
    assume "\<not> s div d < d"
    then have "d \<le> s div d" by simp
    with assms(1) have "d * d \<le> d * (s div d)" by (simp add: mult_left_mono)
    with eq m have "d * d \<le> s" by linarith
    with assms(3) show False by (simp add: power2_eq_square)
  qed
  moreover from assms have "0 \<le> s div d" by (simp add: pos_imp_zdiv_nonneg_iff)
  ultimately show ?thesis by simp
qed

lemma decode_entry:
  assumes "self_four_states self" "t < length tr" "0 \<le> self_residents self" "0 \<le> tr ! t"
  shows "occ_activity (save_results self tr) ! t =
           min (tr ! t div (self_residents self + 1)) (tr ! t mod (self_residents self + 1))"
    and "occ_no_activity (save_results self tr) ! t =
           max (tr ! t div (self_residents self + 1) - tr ! t mod (self_residents self + 1)) 0"
proof -
  from assms(3) have d: "0 < self_residents self + 1" by simp
  with assms(4) have fm: "fmod (tr ! t) (self_residents self + 1) = tr ! t mod (self_residents self + 1)"
    by (simp add: fmod_nonneg)
  from d have fd: "floor_div_astype_int (tr ! t) (self_residents self + 1) =
      tr ! t div (self_residents self + 1)"
    by (simp add: floor_div_astype_int_def)
  show "occ_activity (save_results self tr) ! t =
           min (tr ! t div (self_residents self + 1)) (tr ! t mod (self_residents self + 1))"
    using save_results_four(1) [OF assms(1,2)] by (simp only: fm fd)
  show "occ_no_activity (save_results self tr) ! t =
           max (tr ! t div (self_residents self + 1) - tr ! t mod (self_residents self + 1)) 0"
    using save_results_four(2) [OF assms(1,2)] by (simp only: fm fd)
qed

section \<open>The states of the concrete runs\<close>

lemma sim4_day1_states:
  "\<exists>tr. sim4_day1 = save_results sim4 tr \<and> length tr = 144 \<and> (\<forall>t<144. 0 \<le> tr ! t \<and> tr ! t < 4)"
proof -
  from run_Inr [OF run_sim4] obtain start act jump s0 tr where
    tabs: "get_tables sim4 ''wd'' = Inr (start, act)" and
    self': "sim4_day1 = save_results sim4 tr" and len: "length tr = 144" and
    steps: "\<forall>i<144. \<exists>row.
               np_row_from2 act (jump * int i + (if i = 0 then s0 else tr ! (i - 1))) = Inr row \<and>
               get_random_interval row (rng_ex\<lparr>pos := pos rng_ex + 1 + i\<rparr>) =
                 Inr (tr ! i, rng_ex\<lparr>pos := pos rng_ex + 1 + i + 1\<rparr>)"
    by blast
  from tabs have act: "act = uniform_trans 576 4" by (simp add: get_tables_sim4)
  have "0 \<le> tr ! t \<and> tr ! t < 4" if "t < 144" for t
  proof -
    from steps that obtain row where
      row: "np_row_from2 act (jump * int t + (if t = 0 then s0 else tr ! (t - 1))) = Inr row" and
      draw: "get_random_interval row (rng_ex\<lparr>pos := pos rng_ex + 1 + t\<rparr>) =
                 Inr (tr ! t, rng_ex\<lparr>pos := pos rng_ex + 1 + t + 1\<rparr>)"
      by blast
    from row have "row = replicate 4 1" unfolding act by (rule np_row_from2_uniform)
    with get_random_interval_Inr [OF draw] show ?thesis by simp
  qed
  with self' len show ?thesis by blast
qed

lemma rng_ex_draw0:
  "p \<noteq> 146 \<Longrightarrow> stream (rng_ex\<lparr>pos := p\<rparr>) (pos (rng_ex\<lparr>pos := p\<rparr>)) = 0"
  by (simp add: rng_ex_def)

lemma sim7_day1_states:
  "\<exists>tr. sim7_day1 = save_results sim7 tr \<and> length tr = 144 \<and> (\<forall>t<144. tr ! t = 0)"
proof -
  from run_Inr [OF run_sim7] obtain start act jump s0 tr where
    tabs: "get_tables sim7 ''wd'' = Inr (start, act)" and
    self': "sim7_day1 = save_results sim7 tr" and len: "length tr = 144" and
    steps: "\<forall>i<144. \<exists>row.
               np_row_from2 act (jump * int i + (if i = 0 then s0 else tr ! (i - 1))) = Inr row \<and>
               get_random_interval row (rng_ex\<lparr>pos := pos rng_ex + 1 + i\<rparr>) =
                 Inr (tr ! i, rng_ex\<lparr>pos := pos rng_ex + 1 + i + 1\<rparr>)"
    by blast
  from tabs have act: "act = uniform_trans 1008 7" by (simp add: get_tables_sim7)
  have "tr ! t = 0" if "t < 144" for t
  proof -
    from steps that obtain row where
      row: "np_row_from2 act (jump * int t + (if t = 0 then s0 else tr ! (t - 1))) = Inr row" and
      draw: "get_random_interval row (rng_ex\<lparr>pos := pos rng_ex + 1 + t\<rparr>) =
                 Inr (tr ! t, rng_ex\<lparr>pos := pos rng_ex + 1 + t + 1\<rparr>)"
      by blast
    from row have r: "row = replicate 7 1" unfolding act by (rule np_row_from2_uniform)
    from that have "pos rng_ex + 1 + t \<noteq> 146" by (simp add: rng_ex_def)
    from sample_uniform_0 [OF rng_ex_draw0 [OF this], of 7] draw show ?thesis
      unfolding r by simp
  qed
  with self' len show ?thesis by blast
qed

lemma get_tables_sim7_day1:
  "get_tables sim7_day1 ''wd'' = Inr (concat (rows start7), uniform_trans 1008 7)"
proof -
  from sim7_day1_states obtain tr where tr: "sim7_day1 = save_results sim7 tr" by blast
  have "get_tables sim7_day1 ''wd'' = get_tables sim7 ''wd''"
    unfolding tr get_tables_def save_results_fields by (rule refl)
  then show ?thesis by (simp only: get_tables_sim7)
qed

lemma start_of_sim7_day1:
  "start_of sim7_day1 (concat (rows start7)) rng_day1 = Inr ((7, 0), rng_ex\<lparr>pos := 146\<rparr>)"
proof -
  from sim7_day1_states obtain tr where
    tr: "sim7_day1 = save_results sim7 tr" "length tr = 144" "\<forall>t<144. tr ! t = 0" by blast
  from tr(2) have ne: "tr \<noteq> []" by auto
  from tr(2,3) ne have "last tr = 0" by (simp add: last_conv_nth)
  with ne have ls: "last_state (self_states sim7_day1) = Inr 0"
    unfolding tr(1) by (simp add: save_results_fields last_state_def)
  have "\<not> self_four_states sim7" by (simp add: sim7_def init_def)
  then have f: "self_has_run sim7_day1" "\<not> self_four_states sim7_day1"
    unfolding tr(1) by (simp_all add: save_results_fields)
  have "get_random_interval (concat (rows start7)) rng_day1 = Inr (3, rng_ex\<lparr>pos := 146\<rparr>)"
    by (simp add: get_random_interval_def np_random_def rng_day1_def rng_ex_def start7_def)
  with ls f show ?thesis by (simp add: start_of_def)
qed

lemma run_sim7_day1: "run sim7_day1 ''wd'' rng_day1 = Inr (sim7_day2, rng_day2)"
proof -
  have "(0::int) \<le> 0" "(0::int) < 7" by simp_all
  then have "\<exists>self'. run sim7_day1 ''wd'' rng_day1 = Inr (self', rng_day1\<lparr>pos := pos rng_day1 + 145\<rparr>)"
    by (rule run_total [OF get_tables_sim7_day1 start_of_sim7_day1 _ _ rows7])
  then show ?thesis by (auto simp: sim7_day2_def rng_day2_def rng_day1_def rng_ex_def)
qed

lemma sim7_day2_first:
  "\<exists>tr. self_states sim7_day2 = Some tr \<and> length tr = 144 \<and> tr ! 0 = 3"
proof -
  from run_Inr [OF run_sim7_day1] obtain start act jump s0 tr where
    tabs: "get_tables sim7_day1 ''wd'' = Inr (start, act)" and
    st: "start_of sim7_day1 start rng_day1 = Inr ((jump, s0), rng_day1\<lparr>pos := pos rng_day1 + 1\<rparr>)" and
    self': "sim7_day2 = save_results sim7_day1 tr" and len: "length tr = 144" and
    steps: "\<forall>i<144. \<exists>row.
               np_row_from2 act (jump * int i + (if i = 0 then s0 else tr ! (i - 1))) = Inr row \<and>
               get_random_interval row (rng_day1\<lparr>pos := pos rng_day1 + 1 + i\<rparr>) =
                 Inr (tr ! i, rng_day1\<lparr>pos := pos rng_day1 + 1 + i + 1\<rparr>)"
    by blast
  from tabs have act: "act = uniform_trans 1008 7" by (simp add: get_tables_sim7_day1)
  from steps [rule_format, of 0] obtain row g2 where
    row: "np_row_from2 act s0 = Inr row" and
    draw: "get_random_interval row (rng_day1\<lparr>pos := pos rng_day1 + 1\<rparr>) = Inr (tr ! 0, g2)"
    by auto
  from row have r: "row = replicate 7 1" unfolding act by (rule np_row_from2_uniform)
  have "stream (rng_day1\<lparr>pos := pos rng_day1 + 1\<rparr>) (pos (rng_day1\<lparr>pos := pos rng_day1 + 1\<rparr>)) = 2 ^ 52"
    by (simp add: rng_day1_def rng_ex_def)
  from sample_uniform_half [OF this] draw have "tr ! 0 = 3" unfolding r by simp
  with len show ?thesis unfolding self' by (simp add: save_results_fields)
qed

section \<open>The errors of a run\<close>

lemma np_row_from2_Inl: "np_row_from2 a i = Inl e \<Longrightarrow> e = IndexError"
  by (simp add: np_row_from2_def Let_def split: if_splits)

lemma np_col_Inl: "np_col a c = Inl e \<Longrightarrow> e = IndexError"
  by (simp add: np_col_def Let_def split: if_splits)

lemma get_tables_Inl: "get_tables self day = Inl e \<Longrightarrow> is_LookupError e"
  by (auto simp: get_tables_def split: option.splits sum.splits dest: np_col_Inl)

lemma last_state_Inl: "last_state st = Inl e \<Longrightarrow> e = TypeError \<or> e = IndexError"
  by (auto simp: last_state_def split: option.splits if_splits)

lemma get_tables_sim_neg: "get_tables sim_neg ''wd'' = Inl IndexError"
  by (simp add: get_tables_def sim_neg_def init_def data_ex1_def np_col_def start7_def)

lemma run_sim_zero: "run sim_zero ''wd'' rng_ex = Inl (InvalidInputError, rng_ex)"
  by (simp add: run_def get_tables_def start_of_def sim_zero_def init_def data_ex_zero_def
      np_col_def str_0 get_random_interval_def)

section \<open>A day with states that are not 0\<close>

lemma replicate4: "replicate 4 x = [x, x, x, x]"
  by (simp add: numeral_eq_Suc)

lemma sample4_three_quarters:
  assumes "stream g (pos g) = 3 * 2 ^ 51"
  shows "get_random_interval (replicate 4 1) g = Inr (3, g\<lparr>pos := pos g + 1\<rparr>)"
  using assms by (simp add: get_random_interval_def np_random_def Let_def replicate4)

lemma sample4_half:
  assumes "stream g (pos g) = 2 ^ 52"
  shows "get_random_interval (replicate 4 1) g = Inr (2, g\<lparr>pos := pos g + 1\<rparr>)"
  using assms by (simp add: get_random_interval_def np_random_def Let_def replicate4)

lemma sample7_three_quarters:
  assumes "stream g (pos g) = 3 * 2 ^ 51"
  shows "get_random_interval (replicate 7 1) g = Inr (5, g\<lparr>pos := pos g + 1\<rparr>)"
  using assms by (simp add: get_random_interval_def np_random_def Let_def replicate7)

lemma start_of_sim4_mix:
  "start_of sim4 (concat (rows start4)) rng_mix = Inr ((4, 3), rng_mix\<lparr>pos := 1\<rparr>)"
  by (simp add: start_of_def sim4_def init_def get_random_interval_def np_random_def rng_mix_def
      fmod_def start4_def)

lemma start_of_sim7_mix:
  "start_of sim7 (concat (rows start7)) rng_mix = Inr ((7, 3), rng_mix\<lparr>pos := 1\<rparr>)"
  by (simp add: start_of_def sim7_def init_def get_random_interval_def np_random_def rng_mix_def
      start7_def)

lemma rows4: "\<forall>i<144. \<forall>s. 0 \<le> s \<and> s < 4 \<longrightarrow>
             (\<exists>row. np_row_from2 (uniform_trans 576 4) (4 * int i + s) = Inr row \<and> 0 < sum_list row \<and>
                    int (length row) \<le> 4)"
  by (rule uniform_rows_ok) simp_all

lemma run_sim4_mix: "run sim4 ''wd'' rng_mix = Inr (sim4_mix, rng_mix_day1)"
proof -
  have "(0::int) \<le> 3" "(3::int) < 4" by simp_all
  then have "\<exists>self'. run sim4 ''wd'' rng_mix = Inr (self', rng_mix\<lparr>pos := pos rng_mix + 145\<rparr>)"
    by (rule run_total [OF get_tables_sim4 start_of_sim4_mix _ _ rows4])
  then show ?thesis by (auto simp: sim4_mix_def rng_mix_day1_def rng_mix_def)
qed

lemma run_sim7_mix: "run sim7 ''wd'' rng_mix = Inr (sim7_mix, rng_mix_day1)"
proof -
  have "(0::int) \<le> 3" "(3::int) < 7" by simp_all
  then have "\<exists>self'. run sim7 ''wd'' rng_mix = Inr (self', rng_mix\<lparr>pos := pos rng_mix + 145\<rparr>)"
    by (rule run_total [OF get_tables_sim7 start_of_sim7_mix _ _ rows7])
  then show ?thesis by (auto simp: sim7_mix_def rng_mix_day1_def rng_mix_def)
qed

lemma mix_steps:
  assumes steps: "\<forall>i<144. \<exists>row.
               np_row_from2 (uniform_trans n k) (jump * int i + (if i = 0 then s0 else tr ! (i - 1))) = Inr row \<and>
               get_random_interval row (rng_mix\<lparr>pos := pos rng_mix + 1 + i\<rparr>) =
                 Inr (tr ! i, rng_mix\<lparr>pos := pos rng_mix + 1 + i + 1\<rparr>)"
    and a: "get_random_interval (replicate k 1) (rng_mix\<lparr>pos := 1\<rparr>) = Inr (x0, ga)"
    and b: "get_random_interval (replicate k 1) (rng_mix\<lparr>pos := 2\<rparr>) = Inr (x1, gb)"
  shows "tr ! 0 = x0 \<and> tr ! 1 = x1"
proof -
  have e0: "rng_mix\<lparr>pos := pos rng_mix + 1 + 0\<rparr> = rng_mix\<lparr>pos := 1\<rparr>"
    and e1: "rng_mix\<lparr>pos := pos rng_mix + 1 + 1\<rparr> = rng_mix\<lparr>pos := 2\<rparr>"
    by (simp_all add: rng_mix_def)
  from steps [rule_format, of 0] obtain row0 g0 where
    r0: "np_row_from2 (uniform_trans n k) s0 = Inr row0"
      "get_random_interval row0 (rng_mix\<lparr>pos := 1\<rparr>) = Inr (tr ! 0, g0)"
    unfolding e0 by auto
  from steps [rule_format, of 1] obtain row1 g1 where
    r1: "np_row_from2 (uniform_trans n k) (jump + tr ! 0) = Inr row1"
      "get_random_interval row1 (rng_mix\<lparr>pos := 2\<rparr>) = Inr (tr ! 1, g1)"
    unfolding e1 by auto
  from r0(1) have "row0 = replicate k 1" by (rule np_row_from2_uniform)
  with r0(2) a have "tr ! 0 = x0" by simp
  moreover from r1(1) have "row1 = replicate k 1" by (rule np_row_from2_uniform)
  with r1(2) b have "tr ! 1 = x1" by simp
  ultimately show ?thesis by simp
qed

lemma mix4_draws:
  "get_random_interval (replicate 4 1) (rng_mix\<lparr>pos := 1\<rparr>) = Inr (3, rng_mix\<lparr>pos := 2\<rparr>)"
  "get_random_interval (replicate 4 1) (rng_mix\<lparr>pos := 2\<rparr>) = Inr (2, rng_mix\<lparr>pos := 3\<rparr>)"
  using sample4_three_quarters [of "rng_mix\<lparr>pos := 1\<rparr>"] sample4_half [of "rng_mix\<lparr>pos := 2\<rparr>"]
  by (simp_all add: rng_mix_def)

lemma mix7_draws:
  "get_random_interval (replicate 7 1) (rng_mix\<lparr>pos := 1\<rparr>) = Inr (5, rng_mix\<lparr>pos := 2\<rparr>)"
  "get_random_interval (replicate 7 1) (rng_mix\<lparr>pos := 2\<rparr>) = Inr (3, rng_mix\<lparr>pos := 3\<rparr>)"
  using sample7_three_quarters [of "rng_mix\<lparr>pos := 1\<rparr>"] sample_uniform_half [of "rng_mix\<lparr>pos := 2\<rparr>"]
  by (simp_all add: rng_mix_def)

section \<open>When a run raises, and when it returns\<close>

lemma steps_nonneg:
  assumes "\<forall>i<144. \<exists>row.
               np_row_from2 act (jump * int i + (if i = 0 then s0 else tr ! (i - 1))) = Inr row \<and>
               get_random_interval row (g\<lparr>pos := pos g + 1 + i\<rparr>) =
                 Inr (tr ! i, g\<lparr>pos := pos g + 1 + i + 1\<rparr>)"
  shows "\<forall>t<144. 0 \<le> tr ! t"
  using assms get_random_interval_Inr by blast

lemma upt_split:
  assumes "[0..<n] = pre @ i # post"
  shows "pre = [0..<i] \<and> i < n"
proof -
  from assms have "length [0..<n] = length (pre @ i # post)" by simp
  then have n: "n = length pre + 1 + length post" by simp
  then have lt: "length pre < n" by simp
  from assms have "[0..<n] ! length pre = (pre @ i # post) ! length pre" by simp
  with lt have i: "i = length pre" by simp
  from assms have "take (length pre) [0..<n] = take (length pre) (pre @ i # post)" by simp
  with lt have "pre = [0..<length pre]" by simp
  with i lt show ?thesis by simp
qed

lemma run_loop_Inl:
  "run_loop act jump ivs s st g = Inl (e, g') \<Longrightarrow>
     \<exists>pre i post s1 st1.
       ivs = pre @ i # post \<and> run_loop act jump pre s st g = Inr ((s1, st1), g') \<and>
       (np_row_from2 act (jump * int i + s1) = Inl e \<or>
        (\<exists>row. np_row_from2 act (jump * int i + s1) = Inr row \<and>
               get_random_interval row g' = Inl (e, g')))"
proof (induction ivs arbitrary: s st g)
  case Nil
  then show ?case by simp
next
  case (Cons i ivs)
  show ?case
  proof (cases "np_row_from2 act (jump * int i + s)")
    case (Inl e')
    with Cons.prems have "e' = e" "g' = g" by simp_all
    with Inl have "i # ivs = [] @ i # ivs \<and> run_loop act jump [] s st g = Inr ((s, st), g') \<and>
        np_row_from2 act (jump * int i + s) = Inl e" by simp
    then show ?thesis by blast
  next
    case (Inr row)
    show ?thesis
    proof (cases "get_random_interval row g")
      case (Inl x)
      obtain e' g2 where x: "x = (e', g2)" by (cases x)
      from get_random_interval_Inl [OF Inl [unfolded x]] have g2: "g2 = g" by simp
      from Cons.prems Inr Inl x have "e' = e" "g2 = g'" by simp_all
      with Inr Inl x g2
      have "i # ivs = [] @ i # ivs \<and> run_loop act jump [] s st g = Inr ((s, st), g') \<and>
        np_row_from2 act (jump * int i + s) = Inr row \<and>
        get_random_interval row g' = Inl (e, g')" by simp
      then show ?thesis by blast
    next
      case r: (Inr y)
      obtain s1 g1 where y: "y = (s1, g1)" by (cases y)
      from Cons.prems Inr r y
      have "run_loop act jump ivs s1 (st[i := s1]) g1 = Inl (e, g')" by simp
      from Cons.IH [OF this] obtain pre j post s2 st2 where
        ivs: "ivs = pre @ j # post" and
        pre: "run_loop act jump pre s1 (st[i := s1]) g1 = Inr ((s2, st2), g')" and
        bad: "np_row_from2 act (jump * int j + s2) = Inl e \<or>
          (\<exists>row. np_row_from2 act (jump * int j + s2) = Inr row \<and>
               get_random_interval row g' = Inl (e, g'))"
        by blast
      from pre Inr r y have "run_loop act jump (i # pre) s st g = Inr ((s2, st2), g')" by simp
      moreover from ivs have "i # ivs = (i # pre) @ j # post" by simp
      ultimately show ?thesis using bad by blast
    qed
  qed
qed

lemma start_of_InvalidInput:
  assumes "start_of self start g = Inl (InvalidInputError, g')"
  shows "sum_list start \<le> 0 \<and> g' = g"
proof (cases "get_random_interval start g")
  case (Inl x)
  obtain e g2 where x: "x = (e, g2)" by (cases x)
  from get_random_interval_Inl [OF Inl [unfolded x]] assms Inl x
  show ?thesis by (auto simp: start_of_def split: if_splits)
next
  case (Inr y)
  obtain s1 g1 where y: "y = (s1, g1)" by (cases y)
  from assms Inr y last_state_Inl [of "self_states self"]
  show ?thesis by (auto simp: start_of_def split: if_splits sum.splits)
qed

lemma run_InvalidInput:
  assumes r: "run self day g = Inl (InvalidInputError, g')"
  shows "\<exists>start act. get_tables self day = Inr (start, act) \<and>
           ((sum_list start \<le> 0 \<and> g' = g) \<or>
            (\<exists>jump s0 g1 i s st row.
               start_of self start g = Inr ((jump, s0), g1) \<and> i < 144 \<and>
               run_loop act jump [0..<i] s0 ((replicate 144 0)[0 := s0]) g1 = Inr ((s, st), g') \<and>
               np_row_from2 act (jump * int i + s) = Inr row \<and> sum_list row \<le> 0))"
proof (cases "get_tables self day")
  case (Inl e)
  with r have "e = InvalidInputError" by (simp add: run_def)
  with get_tables_Inl [OF Inl] show ?thesis by simp
next
  case (Inr p)
  obtain start act where p: "p = (start, act)" by (cases p)
  show ?thesis
  proof (cases "start_of self start g")
    case (Inl x)
    with r Inr p have "start_of self start g = Inl (InvalidInputError, g')"
      by (simp add: run_def)
    from start_of_InvalidInput [OF this] Inr p show ?thesis by blast
  next
    case s: (Inr q)
    obtain jump s0 g1 where q: "q = ((jump, s0), g1)" by (cases q) auto
    from r Inr p s q
    have "run_loop act jump [0..<144] s0 ((replicate 144 0)[0 := s0]) g1 =
              Inl (InvalidInputError, g')"
      by (simp add: run_def split: sum.splits prod.splits)
    from run_loop_Inl [OF this] obtain pre i post s1 st1 where
      sp: "[0..<144] = pre @ i # post" and
      pre: "run_loop act jump pre s0 ((replicate 144 0)[0 := s0]) g1 = Inr ((s1, st1), g')" and
      bad: "np_row_from2 act (jump * int i + s1) = Inl InvalidInputError \<or>
        (\<exists>row. np_row_from2 act (jump * int i + s1) = Inr row \<and>
               get_random_interval row g' = Inl (InvalidInputError, g'))"
      by blast
    from upt_split [OF sp] have i: "pre = [0..<i]" "i < 144" by simp_all
    from bad np_row_from2_Inl [of act "jump * int i + s1" InvalidInputError]
    obtain row where row: "np_row_from2 act (jump * int i + s1) = Inr row"
      "get_random_interval row g' = Inl (InvalidInputError, g')" by auto
    from get_random_interval_Inl [OF row(2)] have "sum_list row \<le> 0" by simp
    with Inr p s q i pre row(1) show ?thesis by blast
  qed
qed

lemma start_of_fresh:
  assumes "\<not> self_has_run self" "get_random_interval start g = Inr (ix, g1)"
  shows "start_of self start g =
           Inr ((if self_four_states self then (self_residents self + 1) ^ 2 else 7,
                 if self_four_states self
                 then (self_residents self + 1) * (ix div 7) + ix mod 7 else ix), g1)"
proof -
  from get_random_interval_Inr [OF assms(2)] have "0 \<le> ix" by simp
  then have "fmod ix 7 = ix mod 7" by (simp add: fmod_nonneg)
  with assms show ?thesis by (simp add: start_of_def)
qed

lemma run_total_fresh:
  assumes tabs: "get_tables self day = Inr (start, act)"
    and fresh: "\<not> self_has_run self"
    and pos: "0 < sum_list start"
    and st: "\<forall>ix. 0 \<le> ix \<and> ix < int (length start) \<longrightarrow>
               0 \<le> (if self_four_states self
                     then (self_residents self + 1) * (ix div 7) + ix mod 7 else ix) \<and>
               (if self_four_states self
                then (self_residents self + 1) * (ix div 7) + ix mod 7 else ix) < W"
    and rows: "\<forall>i<144. \<forall>s. 0 \<le> s \<and> s < W \<longrightarrow>
             (\<exists>row. np_row_from2 act
                      ((if self_four_states self then (self_residents self + 1) ^ 2 else 7) * int i + s)
                    = Inr row \<and> 0 < sum_list row \<and> int (length row) \<le> W)"
  shows "\<exists>self'. run self day g = Inr (self', g\<lparr>pos := pos g + 145\<rparr>)"
proof -
  from get_random_interval_total [OF pos] obtain ix where
    draw: "get_random_interval start g = Inr (ix, g\<lparr>pos := pos g + 1\<rparr>)" by blast
  from get_random_interval_Inr [OF draw] have ix: "0 \<le> ix \<and> ix < int (length start)" by simp
  note so = start_of_fresh [OF fresh draw]
  from st ix have r: "0 \<le> (if self_four_states self
                     then (self_residents self + 1) * (ix div 7) + ix mod 7 else ix)"
    "(if self_four_states self
                then (self_residents self + 1) * (ix div 7) + ix mod 7 else ix) < W"
    by blast+
  from run_total [OF tabs so r rows] show ?thesis .
qed

lemma str_m1: "str (- 1) = ''-1''" by code_simp

lemma get_tables_sim_m1:
  "get_tables sim_m1 ''wd'' = Inr ([0, 0, 0, 1, 0, 0, 0], uniform_trans 1008 7)"
  by (simp add: get_tables_def sim_m1_def init_def data_ex_neg_def np_col_def str_m1)

lemma get_tables_sim_zero: "get_tables sim_zero ''wd'' = Inr ([0], uniform_trans 1008 7)"
  by (simp add: get_tables_def sim_zero_def init_def data_ex_zero_def np_col_def str_0)

section \<open>The claims\<close>

text \<open>
  C8.  Before any call of \<^verbatim>\<open>run\<close> has returned (the flag \<^verbatim>\<open>_has_run\<close> is unset, as the
  constructor leaves it), both \<^verbatim>\<open>get_occ_activity\<close> and \<^verbatim>\<open>get_occ_no_activity\<close> raise the
  error that asks for \<^verbatim>\<open>run\<close> first; once \<^verbatim>\<open>run\<close> has returned (it sets the flag),
  \<^verbatim>\<open>get_occ_no_activity\<close> on an instance that is not four-state raises the error that asks
  for a four-state model; \<^verbatim>\<open>get_residents\<close> returns the resident count in any state.
\<close>

theorem accessors_preconditions:
  "(\<not> self_has_run self \<longrightarrow>
      get_occ_activity self = Inl (ValueError run_first_msg) \<and>
      get_occ_no_activity self = Inl (ValueError run_first_msg)) \<and>
   (self_has_run self \<and> \<not> self_four_states self \<longrightarrow>
      get_occ_no_activity self = Inl (ValueError four_state_msg)) \<and>
   get_residents self = self_residents self \<and>
   run_first_msg \<noteq> four_state_msg \<and>
   (init data_ex residents four_states = Inr self \<longrightarrow> \<not> self_has_run self) \<and>
   (run self day g = Inr (self', g') \<longrightarrow>
      self_has_run self' \<and> self_four_states self' = self_four_states self)"
proof -
  have "self_has_run self' \<and> self_four_states self' = self_four_states self"
    if "run self day g = Inr (self', g')"
    using run_states [OF that] save_results_fields by auto
  moreover have "run_first_msg \<noteq> four_state_msg"
    by (simp add: run_first_msg_def four_state_msg_def)
  moreover have "\<not> self_has_run self" if "init data_ex residents four_states = Inr self"
    using that by (auto simp: init_def)
  ultimately show ?thesis
    by (simp add: get_occ_activity_def get_occ_no_activity_def get_residents_def)
qed

theorem accessors_preconditions_witness:
  "init data_ex1 1 False = Inr sim7 \<and> run sim7 ''wd'' rng_ex = Inr (sim7_day1, rng_day1) \<and>
   get_occ_activity sim7 = Inl (ValueError run_first_msg) \<and>
   get_occ_no_activity sim7 = Inl (ValueError run_first_msg) \<and>
   self_has_run sim7_day1 \<and> \<not> self_four_states sim7_day1 \<and>
   get_occ_no_activity sim7_day1 = Inl (ValueError four_state_msg) \<and>
   get_residents sim7_day1 = 1"
proof -
  have i: "init data_ex1 1 False = Inr sim7" by (simp add: sim7_def init_def)
  have f: "\<not> self_four_states sim7" by (simp add: sim7_def init_def)
  note a = accessors_preconditions [of sim7 data_ex1 1 False "''wd''" rng_ex sim7_day1 rng_day1]
  note b = accessors_preconditions [of sim7_day1 data_ex1 1 False "''wd''" rng_ex sim7_day1 rng_day1]
  from run_states [OF run_sim7] obtain tr where "sim7_day1 = save_results sim7 tr" by blast
  then have "self_residents sim7_day1 = self_residents sim7"
    using save_results_fields(4) [of sim7 tr] by (simp only:)
  then have r: "self_residents sim7_day1 = 1" by (simp add: sim7_def init_def)
  from a b i f r run_sim7 show ?thesis by simp
qed

text \<open>
  C9.  After a four-state run that returns, with \<open>residents + 1 \<noteq> 0\<close>: the stored
  trajectory is the list of the 144 states that the loop drew, one per interval from the
  row of the state before, and at every interval the two series add up to the decoded
  home count, \<open>occ_activity[t] + occ_no_activity[t] = floor (states[t] / (residents + 1))\<close>.
\<close>

theorem activity_sum_is_home:
  assumes "run self day g = Inr (self', g')"
    and "self_four_states self" "self_residents self \<noteq> - 1"
  shows "\<exists>start act jump s0 tr.
           get_tables self day = Inr (start, act) \<and>
           start_of self start g = Inr ((jump, s0), g\<lparr>pos := pos g + 1\<rparr>) \<and>
           length tr = 144 \<and>
           (\<forall>i<144. \<exists>row.
               np_row_from2 act (jump * int i + (if i = 0 then s0 else tr ! (i - 1))) = Inr row \<and>
               get_random_interval row (g\<lparr>pos := pos g + 1 + i\<rparr>) =
                 Inr (tr ! i, g\<lparr>pos := pos g + 1 + i + 1\<rparr>)) \<and>
           self_states self' = Some tr \<and>
           (\<forall>t<144. occ_activity self' ! t + occ_no_activity self' ! t =
                      tr ! t div (self_residents self + 1))"
proof -
  from run_Inr [OF assms(1)] obtain start act jump s0 tr where
    tabs: "get_tables self day = Inr (start, act)" and
    st: "start_of self start g = Inr ((jump, s0), g\<lparr>pos := pos g + 1\<rparr>)" and
    self': "self' = save_results self tr" and len: "length tr = 144" and
    steps: "\<forall>i<144. \<exists>row.
               np_row_from2 act (jump * int i + (if i = 0 then s0 else tr ! (i - 1))) = Inr row \<and>
               get_random_interval row (g\<lparr>pos := pos g + 1 + i\<rparr>) =
                 Inr (tr ! i, g\<lparr>pos := pos g + 1 + i + 1\<rparr>)"
    by blast
  from assms(3) have d: "self_residents self + 1 \<noteq> 0" by simp
  have sum: "occ_activity self' ! t + occ_no_activity self' ! t = tr ! t div (self_residents self + 1)"
    if "t < 144" for t
    using save_results_four [OF assms(2), of t tr] that len d
    unfolding self' by (simp add: floor_div_astype_int_def)
  have "self_states self' = Some tr" unfolding self' by (rule save_results_fields)
  with tabs st len steps sum show ?thesis by blast
qed

theorem activity_sum_is_home_witness:
  "run sim4 ''wd'' rng_mix = Inr (sim4_mix, rng_mix_day1) \<and> self_four_states sim4 \<and>
   self_residents sim4 \<noteq> - 1 \<and>
   (\<exists>tr. self_states sim4_mix = Some tr \<and> tr ! 0 = 3 \<and> tr ! 1 = 2) \<and>
   occ_activity sim4_mix ! 0 + occ_no_activity sim4_mix ! 0 = 1 \<and>
   occ_activity sim4_mix ! 1 + occ_no_activity sim4_mix ! 1 = 1"
proof -
  have f: "self_four_states sim4" "self_residents sim4 \<noteq> - 1" "self_residents sim4 = 1"
    by (simp_all add: sim4_def init_def)
  from activity_sum_is_home [OF run_sim4_mix f(1,2)] obtain start act jump s0 tr where
    tabs: "get_tables sim4 ''wd'' = Inr (start, act)" and
    steps: "\<forall>i<144. \<exists>row.
               np_row_from2 act (jump * int i + (if i = 0 then s0 else tr ! (i - 1))) = Inr row \<and>
               get_random_interval row (rng_mix\<lparr>pos := pos rng_mix + 1 + i\<rparr>) =
                 Inr (tr ! i, rng_mix\<lparr>pos := pos rng_mix + 1 + i + 1\<rparr>)" and
    st: "self_states sim4_mix = Some tr" and
    sum: "\<forall>t<144. occ_activity sim4_mix ! t + occ_no_activity sim4_mix ! t =
                      tr ! t div (self_residents sim4 + 1)"
    by blast
  from tabs have act: "act = uniform_trans 576 4" by (simp add: get_tables_sim4)
  from mix_steps [OF steps [unfolded act] mix4_draws] have tr: "tr ! 0 = 3" "tr ! 1 = 2"
    by simp_all
  from sum [rule_format, of 0] sum [rule_format, of 1] tr f(3)
  have s: "occ_activity sim4_mix ! 0 + occ_no_activity sim4_mix ! 0 = 1"
    "occ_activity sim4_mix ! 1 + occ_no_activity sim4_mix ! 1 = 1"
    by simp_all
  from run_sim4_mix f(1,2) st tr s show ?thesis by blast
qed

text \<open>
  C5.  After a run that returns, the stored trajectory is the list of the 144 states
  that the loop drew, one per interval from the row of the state before.  For a
  four-state instance (with a resident count that is not negative) every interval
  \<open>t\<close> has \<open>occ_activity[t] = min home active\<close> and
  \<open>occ_no_activity[t] = max (home - active) 0\<close>, where \<open>home\<close> is the floor of
  \<open>states[t] / (residents + 1)\<close> and \<open>active\<close> is \<open>states[t] mod (residents + 1)\<close>;
  for a seven-state instance \<open>occ_activity\<close> is the trajectory itself.
\<close>

theorem run_decodes_states:
  assumes "run self day g = Inr (self', g')"
  shows "\<exists>start act jump s0 tr.
           get_tables self day = Inr (start, act) \<and>
           start_of self start g = Inr ((jump, s0), g\<lparr>pos := pos g + 1\<rparr>) \<and>
           length tr = 144 \<and>
           (\<forall>i<144. \<exists>row.
               np_row_from2 act (jump * int i + (if i = 0 then s0 else tr ! (i - 1))) = Inr row \<and>
               get_random_interval row (g\<lparr>pos := pos g + 1 + i\<rparr>) =
                 Inr (tr ! i, g\<lparr>pos := pos g + 1 + i + 1\<rparr>)) \<and>
           self_states self' = Some tr \<and>
           (self_four_states self \<longrightarrow> 0 \<le> self_residents self \<longrightarrow>
              (\<forall>t<144.
                 occ_activity self' ! t =
                   min (tr ! t div (self_residents self + 1)) (tr ! t mod (self_residents self + 1)) \<and>
                 occ_no_activity self' ! t =
                   max (tr ! t div (self_residents self + 1)
                        - tr ! t mod (self_residents self + 1)) 0)) \<and>
           (\<not> self_four_states self \<longrightarrow> occ_activity self' = tr)"
proof -
  from run_Inr [OF assms] obtain start act jump s0 tr where
    tabs: "get_tables self day = Inr (start, act)" and
    st: "start_of self start g = Inr ((jump, s0), g\<lparr>pos := pos g + 1\<rparr>)" and
    self': "self' = save_results self tr" and len: "length tr = 144" and
    steps: "\<forall>i<144. \<exists>row.
               np_row_from2 act (jump * int i + (if i = 0 then s0 else tr ! (i - 1))) = Inr row \<and>
               get_random_interval row (g\<lparr>pos := pos g + 1 + i\<rparr>) =
                 Inr (tr ! i, g\<lparr>pos := pos g + 1 + i + 1\<rparr>)"
    by blast
  note nn = steps_nonneg [OF steps]
  have four: "occ_activity self' ! t =
                   min (tr ! t div (self_residents self + 1)) (tr ! t mod (self_residents self + 1)) \<and>
                 occ_no_activity self' ! t =
                   max (tr ! t div (self_residents self + 1)
                        - tr ! t mod (self_residents self + 1)) 0"
    if "self_four_states self" "0 \<le> self_residents self" "t < 144" for t
  proof -
    from that(3) len nn have "t < length tr" "0 \<le> tr ! t" by simp_all
    from decode_entry [OF that(1) this(1) that(2) this(2)] show ?thesis
      by (simp only: self')
  qed
  have seven: "occ_activity self' = tr" if "\<not> self_four_states self"
    using that unfolding self' by (rule save_results_seven)
  have "self_states self' = Some tr" unfolding self' by (rule save_results_fields)
  with tabs st len steps four seven show ?thesis by blast
qed

theorem run_decodes_states_witness:
  "run sim4 ''wd'' rng_mix = Inr (sim4_mix, rng_mix_day1) \<and> self_four_states sim4 \<and>
   0 \<le> self_residents sim4 \<and>
   run sim7 ''wd'' rng_mix = Inr (sim7_mix, rng_mix_day1) \<and> \<not> self_four_states sim7 \<and>
   (\<exists>tr. self_states sim4_mix = Some tr \<and> tr ! 0 = 3 \<and> tr ! 1 = 2) \<and>
   occ_activity sim4_mix ! 0 = 1 \<and> occ_no_activity sim4_mix ! 0 = 0 \<and>
   occ_activity sim4_mix ! 1 = 0 \<and> occ_no_activity sim4_mix ! 1 = 1 \<and>
   (\<exists>tr. self_states sim7_mix = Some tr \<and> tr ! 0 = 5 \<and> tr ! 1 = 3 \<and>
      occ_activity sim7_mix = tr)"
proof -
  have f4: "self_four_states sim4" "self_residents sim4 = 1" by (simp_all add: sim4_def init_def)
  have f7: "\<not> self_four_states sim7" by (simp add: sim7_def init_def)
  from run_decodes_states [OF run_sim4_mix] f4 obtain start act jump s0 tr where
    tabs: "get_tables sim4 ''wd'' = Inr (start, act)" and
    steps: "\<forall>i<144. \<exists>row.
               np_row_from2 act (jump * int i + (if i = 0 then s0 else tr ! (i - 1))) = Inr row \<and>
               get_random_interval row (rng_mix\<lparr>pos := pos rng_mix + 1 + i\<rparr>) =
                 Inr (tr ! i, rng_mix\<lparr>pos := pos rng_mix + 1 + i + 1\<rparr>)" and
    st: "self_states sim4_mix = Some tr" and
    dec: "\<forall>t<144. occ_activity sim4_mix ! t = min (tr ! t div 2) (tr ! t mod 2) \<and>
                occ_no_activity sim4_mix ! t = max (tr ! t div 2 - tr ! t mod 2) 0"
    by auto
  from tabs have act: "act = uniform_trans 576 4" by (simp add: get_tables_sim4)
  from mix_steps [OF steps [unfolded act] mix4_draws] have tr: "tr ! 0 = 3" "tr ! 1 = 2"
    by simp_all
  from dec [rule_format, of 0] dec [rule_format, of 1] tr
  have v: "occ_activity sim4_mix ! 0 = 1" "occ_no_activity sim4_mix ! 0 = 0"
    "occ_activity sim4_mix ! 1 = 0" "occ_no_activity sim4_mix ! 1 = 1"
    by simp_all
  from run_decodes_states [OF run_sim7_mix] f7 obtain start' act' jump' s0' tr' where
    tabs': "get_tables sim7 ''wd'' = Inr (start', act')" and
    steps': "\<forall>i<144. \<exists>row.
               np_row_from2 act' (jump' * int i + (if i = 0 then s0' else tr' ! (i - 1))) = Inr row \<and>
               get_random_interval row (rng_mix\<lparr>pos := pos rng_mix + 1 + i\<rparr>) =
                 Inr (tr' ! i, rng_mix\<lparr>pos := pos rng_mix + 1 + i + 1\<rparr>)" and
    st': "self_states sim7_mix = Some tr'" and
    occ': "occ_activity sim7_mix = tr'"
    by auto
  from tabs' have act': "act' = uniform_trans 1008 7" by (simp add: get_tables_sim7)
  from mix_steps [OF steps' [unfolded act'] mix7_draws] have tr': "tr' ! 0 = 5" "tr' ! 1 = 3"
    by simp_all
  from f4 have nn: "0 \<le> self_residents sim4" by simp
  from run_sim4_mix run_sim7_mix f4(1) nn f7 st tr v st' tr' occ' show ?thesis by blast
qed

text \<open>
  C6.  After a four-state run (with a resident count that is not negative) whose 144
  states all lie in \<open>[0, (residents + 1)\<^sup>2)\<close>, every interval \<open>t\<close> has
  \<open>occ_activity[t] \<le> residents\<close>, \<open>occ_no_activity[t] \<le> residents\<close> and
  \<open>occ_activity[t] + occ_no_activity[t] \<le> residents\<close>.
\<close>

theorem decoded_counts_bounded:
  assumes "run self day g = Inr (self', g')"
    and "self_four_states self" "0 \<le> self_residents self"
    and "self_states self' = Some tr"
    and "\<forall>t<144. 0 \<le> tr ! t \<and> tr ! t < (self_residents self + 1) ^ 2"
  shows "\<forall>t<144. occ_activity self' ! t \<le> self_residents self \<and>
                 occ_no_activity self' ! t \<le> self_residents self \<and>
                 occ_activity self' ! t + occ_no_activity self' ! t \<le> self_residents self"
proof (intro allI impI)
  fix t :: nat
  assume t: "t < 144"
  from run_states [OF assms(1)] obtain tr' where
    tr': "self' = save_results self tr'" "length tr' = 144" by blast
  with assms(4) have eq: "tr' = tr" by (simp add: save_results_fields)
  from assms(3) have d: "0 < self_residents self + 1" by simp
  from assms(5) t have rng: "0 \<le> tr ! t" "tr ! t < (self_residents self + 1) ^ 2" by simp_all
  from home_bound [OF d rng] have h: "0 \<le> tr ! t div (self_residents self + 1)"
    "tr ! t div (self_residents self + 1) \<le> self_residents self" by simp_all
  from d have a: "0 \<le> tr ! t mod (self_residents self + 1)"
    "tr ! t mod (self_residents self + 1) \<le> self_residents self"
    using pos_mod_bound [OF d, of "tr ! t"] by simp_all
  from t tr' eq have len: "t < length tr" by simp
  note dec = decode_entry [OF assms(2) len assms(3) rng(1)]
  define hh where "hh = tr ! t div (self_residents self + 1)"
  define aa where "aa = tr ! t mod (self_residents self + 1)"
  from h a have b: "0 \<le> hh" "hh \<le> self_residents self" "0 \<le> aa" "aa \<le> self_residents self"
    by (simp_all only: hh_def aa_def)
  from dec have o: "occ_activity self' ! t = min hh aa" "occ_no_activity self' ! t = max (hh - aa) 0"
    by (simp_all only: tr'(1) eq hh_def aa_def)
  from b show "occ_activity self' ! t \<le> self_residents self \<and>
        occ_no_activity self' ! t \<le> self_residents self \<and>
        occ_activity self' ! t + occ_no_activity self' ! t \<le> self_residents self"
    unfolding o by arith
qed

theorem decoded_counts_bounded_witness:
  "run sim4 ''wd'' rng_ex = Inr (sim4_day1, rng_day1) \<and> self_four_states sim4 \<and>
   0 \<le> self_residents sim4 \<and>
   (\<exists>tr. self_states sim4_day1 = Some tr \<and>
      (\<forall>t<144. 0 \<le> tr ! t \<and> tr ! t < (self_residents sim4 + 1) ^ 2) \<and>
      (\<forall>t<144. occ_activity sim4_day1 ! t \<le> 1 \<and> occ_no_activity sim4_day1 ! t \<le> 1 \<and>
                occ_activity sim4_day1 ! t + occ_no_activity sim4_day1 ! t \<le> 1))"
proof -
  have f: "self_four_states sim4" "self_residents sim4 = 1" by (simp_all add: sim4_def init_def)
  from sim4_day1_states obtain tr where
    tr: "sim4_day1 = save_results sim4 tr" "\<forall>t<144. 0 \<le> tr ! t \<and> tr ! t < 4" by blast
  have st: "self_states sim4_day1 = Some tr" unfolding tr(1) by (rule save_results_fields)
  from tr(2) have r: "\<forall>t<144. 0 \<le> tr ! t \<and> tr ! t < (self_residents sim4 + 1) ^ 2"
    by (simp add: f)
  from f have nn: "0 \<le> self_residents sim4" by simp
  from decoded_counts_bounded [OF run_sim4 f(1) nn st r]
  have "\<forall>t<144. occ_activity sim4_day1 ! t \<le> 1 \<and> occ_no_activity sim4_day1 ! t \<le> 1 \<and>
                occ_activity sim4_day1 ! t + occ_no_activity sim4_day1 ! t \<le> 1"
    by (simp only: f(2))
  with run_sim4 f(1) nn st r show ?thesis by blast
qed

text \<open>
  C10.  A run that returns has drawn a start index from the start-state column, has
  kept neither this index nor a state computed from it when \<^verbatim>\<open>_has_run\<close> was set (the
  chain then starts from the last state stored), and leaves the random source 145
  draws further, whether or not it is the first run of the instance.
\<close>

theorem run_consumes_145_draws:
  assumes "run self day g = Inr (self', g')"
  shows "g' = g\<lparr>pos := pos g + 145\<rparr> \<and>
         (\<exists>start act ix jump s0.
            get_tables self day = Inr (start, act) \<and>
            get_random_interval start g = Inr (ix, g\<lparr>pos := pos g + 1\<rparr>) \<and>
            start_of self start g = Inr ((jump, s0), g\<lparr>pos := pos g + 1\<rparr>) \<and>
            (self_has_run self \<longrightarrow> last_state (self_states self) = Inr s0))"
proof -
  from run_Inr [OF assms] obtain start act jump s0 where
    tabs: "get_tables self day = Inr (start, act)" and
    st: "start_of self start g = Inr ((jump, s0), g\<lparr>pos := pos g + 1\<rparr>)" and
    g': "g' = g\<lparr>pos := pos g + 145\<rparr>"
    by blast
  from start_of_Inr [OF st] obtain ix where
    "get_random_interval start g = Inr (ix, g\<lparr>pos := pos g + 1\<rparr>)"
    "if self_has_run self then last_state (self_states self) = Inr s0
     else s0 = (if self_four_states self
                then (self_residents self + 1) * (ix div 7) + ix mod 7 else ix)"
    by blast
  with tabs st g' show ?thesis by (cases "self_has_run self") auto
qed

theorem run_consumes_145_draws_witness:
  "run sim7 ''wd'' rng_ex = Inr (sim7_day1, rng_day1) \<and> pos rng_day1 = pos rng_ex + 145 \<and>
   run sim7_day1 ''wd'' rng_day1 = Inr (sim7_day2, rng_day2) \<and> self_has_run sim7_day1 \<and>
   pos rng_day2 = pos rng_day1 + 145 \<and>
   (\<exists>start act ix jump s0.
      get_tables sim7_day1 ''wd'' = Inr (start, act) \<and>
      get_random_interval start rng_day1 = Inr (ix, rng_day1\<lparr>pos := pos rng_day1 + 1\<rparr>) \<and>
      start_of sim7_day1 start rng_day1 = Inr ((jump, s0), rng_day1\<lparr>pos := pos rng_day1 + 1\<rparr>) \<and>
      last_state (self_states sim7_day1) = Inr s0)"
proof -
  from sim7_day1_states obtain tr where tr: "sim7_day1 = save_results sim7 tr" by blast
  have h: "self_has_run sim7_day1" unfolding tr by (rule save_results_fields)
  from run_consumes_145_draws [OF run_sim7, THEN conjunct1]
  have "pos rng_day1 = pos (rng_ex\<lparr>pos := pos rng_ex + 145\<rparr>)" by (rule arg_cong)
  then have a: "pos rng_day1 = pos rng_ex + 145" by simp
  from run_consumes_145_draws [OF run_sim7_day1] h
  have b: "rng_day2 = rng_day1\<lparr>pos := pos rng_day1 + 145\<rparr>"
    and c: "\<exists>start act ix jump s0.
      get_tables sim7_day1 ''wd'' = Inr (start, act) \<and>
      get_random_interval start rng_day1 = Inr (ix, rng_day1\<lparr>pos := pos rng_day1 + 1\<rparr>) \<and>
      start_of sim7_day1 start rng_day1 = Inr ((jump, s0), rng_day1\<lparr>pos := pos rng_day1 + 1\<rparr>) \<and>
      last_state (self_states sim7_day1) = Inr s0"
    by blast+
  from b have "pos rng_day2 = pos (rng_day1\<lparr>pos := pos rng_day1 + 145\<rparr>)" by (rule arg_cong)
  then have "pos rng_day2 = pos rng_day1 + 145" by simp
  with a c h run_sim7 run_sim7_day1 show ?thesis by blast
qed

text \<open>
  C4.  A run that returns has advanced the chain over the 144 intervals
  \<open>0, \<dots>, 143\<close>: the stored trajectory has 144 entries, and at each interval \<open>i\<close> the
  row of the transition table at index \<open>num_row_jump * i + state\<close> was sampled, where
  \<open>num_row_jump\<close> is \<open>(residents + 1)\<^sup>2\<close> for four states and 7 otherwise, and
  \<open>state\<close> is the start state for \<open>i = 0\<close> and entry \<open>i - 1\<close> of the trajectory
  otherwise; the index drawn is entry \<open>i\<close> of the trajectory.
\<close>

theorem run_advances_144_intervals:
  assumes "run self day g = Inr (self', g')"
  shows "\<exists>start act jump s0 tr.
           get_tables self day = Inr (start, act) \<and>
           start_of self start g = Inr ((jump, s0), g\<lparr>pos := pos g + 1\<rparr>) \<and>
           jump = (if self_four_states self then (self_residents self + 1) ^ 2 else 7) \<and>
           self_states self' = Some tr \<and> length tr = 144 \<and>
           (\<forall>i<144. \<exists>row.
               np_row_from2 act (jump * int i + (if i = 0 then s0 else tr ! (i - 1))) = Inr row \<and>
               get_random_interval row (g\<lparr>pos := pos g + 1 + i\<rparr>) =
                 Inr (tr ! i, g\<lparr>pos := pos g + 1 + i + 1\<rparr>))"
proof -
  from run_Inr [OF assms] obtain start act jump s0 tr where
    tabs: "get_tables self day = Inr (start, act)" and
    st: "start_of self start g = Inr ((jump, s0), g\<lparr>pos := pos g + 1\<rparr>)" and
    self': "self' = save_results self tr" and len: "length tr = 144" and
    steps: "\<forall>i<144. \<exists>row.
               np_row_from2 act (jump * int i + (if i = 0 then s0 else tr ! (i - 1))) = Inr row \<and>
               get_random_interval row (g\<lparr>pos := pos g + 1 + i\<rparr>) =
                 Inr (tr ! i, g\<lparr>pos := pos g + 1 + i + 1\<rparr>)"
    by blast
  from start_of_Inr [OF st]
  have jump: "jump = (if self_four_states self then (self_residents self + 1) ^ 2 else 7)"
    by blast
  have "self_states self' = Some tr" unfolding self' by (rule save_results_fields)
  with tabs st jump len steps show ?thesis by blast
qed

theorem run_advances_144_intervals_witness:
  "run sim4 ''wd'' rng_ex = Inr (sim4_day1, rng_day1) \<and>
   (\<exists>start act jump s0 tr.
           get_tables sim4 ''wd'' = Inr (start, act) \<and>
           start_of sim4 start rng_ex = Inr ((jump, s0), rng_ex\<lparr>pos := pos rng_ex + 1\<rparr>) \<and>
           jump = 4 \<and>
           self_states sim4_day1 = Some tr \<and> length tr = 144 \<and>
           (\<forall>i<144. \<exists>row.
               np_row_from2 act (jump * int i + (if i = 0 then s0 else tr ! (i - 1))) = Inr row \<and>
               get_random_interval row (rng_ex\<lparr>pos := pos rng_ex + 1 + i\<rparr>) =
                 Inr (tr ! i, rng_ex\<lparr>pos := pos rng_ex + 1 + i + 1\<rparr>)))"
proof -
  have f: "self_four_states sim4" "self_residents sim4 = 1" by (simp_all add: sim4_def init_def)
  have "(if self_four_states sim4 then (self_residents sim4 + 1) ^ 2 else 7) = (4::int)"
    by (simp add: f)
  with run_advances_144_intervals [OF run_sim4] run_sim4 show ?thesis by (simp only:)
qed

text \<open>
  C3.  On a first run that returns (\<^verbatim>\<open>_has_run\<close> unset), the index \<open>s\<close> drawn from the
  start-state column gives the state the chain starts from: for four states it is
  \<open>(residents + 1) * floor (s / 7) + s mod 7\<close>, for seven states it is \<open>s\<close> itself; the
  row sampled at interval 0 is the one at \<open>num_row_jump * 0\<close> plus this state.
\<close>

theorem first_run_start_state:
  assumes "run self day g = Inr (self', g')" and "\<not> self_has_run self"
  shows "\<exists>start act s jump s0 tr row.
           get_tables self day = Inr (start, act) \<and>
           get_random_interval start g = Inr (s, g\<lparr>pos := pos g + 1\<rparr>) \<and> 0 \<le> s \<and>
           s0 = (if self_four_states self
                 then (self_residents self + 1) * (s div 7) + s mod 7 else s) \<and>
           start_of self start g = Inr ((jump, s0), g\<lparr>pos := pos g + 1\<rparr>) \<and>
           self_states self' = Some tr \<and>
           np_row_from2 act (jump * 0 + s0) = Inr row \<and>
           get_random_interval row (g\<lparr>pos := pos g + 1\<rparr>) = Inr (tr ! 0, g\<lparr>pos := pos g + 2\<rparr>)"
proof -
  from run_Inr [OF assms(1)] obtain start act jump s0 tr where
    tabs: "get_tables self day = Inr (start, act)" and
    st: "start_of self start g = Inr ((jump, s0), g\<lparr>pos := pos g + 1\<rparr>)" and
    self': "self' = save_results self tr" and
    steps: "\<forall>i<144. \<exists>row.
               np_row_from2 act (jump * int i + (if i = 0 then s0 else tr ! (i - 1))) = Inr row \<and>
               get_random_interval row (g\<lparr>pos := pos g + 1 + i\<rparr>) =
                 Inr (tr ! i, g\<lparr>pos := pos g + 1 + i + 1\<rparr>)"
    by blast
  from start_of_Inr [OF st] assms(2) obtain s where
    s: "get_random_interval start g = Inr (s, g\<lparr>pos := pos g + 1\<rparr>)" "0 \<le> s"
      "s0 = (if self_four_states self
             then (self_residents self + 1) * (s div 7) + s mod 7 else s)"
    by auto
  from steps [rule_format, of 0] obtain row where
    row: "np_row_from2 act (jump * 0 + s0) = Inr row"
      "get_random_interval row (g\<lparr>pos := pos g + 1\<rparr>) = Inr (tr ! 0, g\<lparr>pos := pos g + 2\<rparr>)"
    by auto
  have "self_states self' = Some tr" unfolding self' by (rule save_results_fields)
  with tabs st s row show ?thesis by blast
qed

theorem first_run_start_state_witness:
  "run sim4 ''wd'' rng_ex = Inr (sim4_day1, rng_day1) \<and> \<not> self_has_run sim4 \<and>
   start_of sim4 (concat (rows start4)) rng_ex = Inr ((4, 2 * (8 div 7) + 8 mod 7), rng_ex\<lparr>pos := 1\<rparr>) \<and>
   run sim7 ''wd'' rng_ex = Inr (sim7_day1, rng_day1) \<and> \<not> self_has_run sim7 \<and>
   start_of sim7 (concat (rows start7)) rng_ex = Inr ((7, 3), rng_ex\<lparr>pos := 1\<rparr>)"
proof -
  have f4: "self_four_states sim4" "self_residents sim4 = 1" "\<not> self_has_run sim4"
    by (simp_all add: sim4_def init_def)
  have f7: "\<not> self_four_states sim7" "\<not> self_has_run sim7"
    by (simp_all add: sim7_def init_def)
  have d4: "get_random_interval (concat (rows start4)) rng_ex = Inr (8, rng_ex\<lparr>pos := 1\<rparr>)"
    by (simp add: get_random_interval_def np_random_def rng_ex_def start4_def)
  have d7: "get_random_interval (concat (rows start7)) rng_ex = Inr (3, rng_ex\<lparr>pos := 1\<rparr>)"
    by (simp add: get_random_interval_def np_random_def rng_ex_def start7_def)
  from first_run_start_state [OF run_sim4 f4(3)] obtain s jump where
    "get_random_interval (concat (rows start4)) rng_ex = Inr (s, rng_ex\<lparr>pos := pos rng_ex + 1\<rparr>)"
    "start_of sim4 (concat (rows start4)) rng_ex =
       Inr ((jump, if self_four_states sim4
                   then (self_residents sim4 + 1) * (s div 7) + s mod 7 else s),
            rng_ex\<lparr>pos := pos rng_ex + 1\<rparr>)"
    by (auto simp: get_tables_sim4)
  with d4 f4 have a: "start_of sim4 (concat (rows start4)) rng_ex =
      Inr ((4, 2 * (8 div 7) + 8 mod 7), rng_ex\<lparr>pos := 1\<rparr>)"
    by (simp add: start_of_sim4)
  from first_run_start_state [OF run_sim7 f7(2)] obtain s jump where
    "get_random_interval (concat (rows start7)) rng_ex = Inr (s, rng_ex\<lparr>pos := pos rng_ex + 1\<rparr>)"
    "start_of sim7 (concat (rows start7)) rng_ex =
       Inr ((jump, if self_four_states sim7
                   then (self_residents sim7 + 1) * (s div 7) + s mod 7 else s),
            rng_ex\<lparr>pos := pos rng_ex + 1\<rparr>)"
    by (auto simp: get_tables_sim7)
  with d7 f7 have b: "start_of sim7 (concat (rows start7)) rng_ex = Inr ((7, 3), rng_ex\<lparr>pos := 1\<rparr>)"
    by (simp add: start_of_sim7)
  from a b f4 f7 run_sim4 run_sim7 show ?thesis by blast
qed

text \<open>
  C1 (the code differs).  Two runs in a row of the seven-state instance on the
  concrete tables: the first trajectory ends in state 0, the second starts the chain
  from this state, but its entry 0 is the state drawn at interval 0, here 3: the store
  \<^verbatim>\<open>states[0] = state\<close> before the loop is overwritten by the loop's first round.
\<close>

theorem second_run_first_entry:
  "run sim7 ''wd'' rng_ex = Inr (sim7_day1, rng_day1) \<and>
   run sim7_day1 ''wd'' rng_day1 = Inr (sim7_day2, rng_day2) \<and>
   the (self_states sim7_day1) ! 143 = 0 \<and>
   the (self_states sim7_day2) ! 0 = 3 \<and>
   the (self_states sim7_day2) ! 0 \<noteq> the (self_states sim7_day1) ! 143"
proof -
  from sim7_day1_states obtain tr where
    tr: "sim7_day1 = save_results sim7 tr" "\<forall>t<144. tr ! t = 0" by blast
  have "self_states sim7_day1 = Some tr" unfolding tr(1) by (rule save_results_fields)
  with tr(2) have a: "the (self_states sim7_day1) ! 143 = 0" by simp
  from sim7_day2_first have b: "the (self_states sim7_day2) ! 0 = 3" by auto
  from a b run_sim7 run_sim7_day1 show ?thesis by simp
qed

text \<open>
  C2, as amended.  The constructor returns an instance for every resident count, also
  one below 1, and stores the count.  \<^verbatim>\<open>run\<close> does not test the resident count.  When
  the start-state column or the transition table for the day type and the resident
  count is missing, it raises a lookup error (\<open>KeyError\<close> or \<open>IndexError\<close>) and no draw has
  been consumed.  When it raises \<open>InvalidInputError\<close>, the tables were found and the
  weights it has given to the sampler have a total that is not positive: the start-state
  column, or the row (from column 2 on) that the chain has reached at some interval
  \<open>i\<close> after \<open>i\<close> rounds of the loop.  And on a first run with the tables found, a
  start-state column of positive total whose indices give start states in \<open>[0, W)\<close>,
  and rows for the states in \<open>[0, W)\<close> of positive total and of at most \<open>W\<close> weights,
  it returns, whatever the resident count.
\<close>

theorem resident_count_unchecked:
  "(\<exists>self. init data_ex residents four_states = Inr self \<and> self_residents self = residents \<and>
           \<not> self_has_run self) \<and>
   (get_tables self day = Inl e \<longrightarrow> run self day g = Inl (e, g) \<and> is_LookupError e) \<and>
   (run self day g = Inl (InvalidInputError, g') \<longrightarrow>
      (\<exists>start act. get_tables self day = Inr (start, act) \<and>
           ((sum_list start \<le> 0 \<and> g' = g) \<or>
            (\<exists>jump s0 g1 i s st row.
               start_of self start g = Inr ((jump, s0), g1) \<and> i < 144 \<and>
               run_loop act jump [0..<i] s0 ((replicate 144 0)[0 := s0]) g1 = Inr ((s, st), g') \<and>
               np_row_from2 act (jump * int i + s) = Inr row \<and> sum_list row \<le> 0)))) \<and>
   (get_tables self day = Inr (start, act) \<and> \<not> self_has_run self \<and> 0 < sum_list start \<and>
    (\<forall>ix. 0 \<le> ix \<and> ix < int (length start) \<longrightarrow>
               0 \<le> (if self_four_states self
                     then (self_residents self + 1) * (ix div 7) + ix mod 7 else ix) \<and>
               (if self_four_states self
                then (self_residents self + 1) * (ix div 7) + ix mod 7 else ix) < W) \<and>
    (\<forall>i<144. \<forall>s. 0 \<le> s \<and> s < W \<longrightarrow>
             (\<exists>row. np_row_from2 act
                      ((if self_four_states self then (self_residents self + 1) ^ 2 else 7) * int i + s)
                    = Inr row \<and> 0 < sum_list row \<and> int (length row) \<le> W))
    \<longrightarrow> (\<exists>self'. run self day g = Inr (self', g\<lparr>pos := pos g + 145\<rparr>)))"
proof (intro conjI impI)
  show "\<exists>self. init data_ex residents four_states = Inr self \<and> self_residents self = residents \<and>
           \<not> self_has_run self"
    by (simp add: init_def)
next
  assume "get_tables self day = Inl e"
  then show "run self day g = Inl (e, g)" by (simp add: run_def)
next
  assume "get_tables self day = Inl e"
  then show "is_LookupError e" by (rule get_tables_Inl)
next
  assume "run self day g = Inl (InvalidInputError, g')"
  then show "\<exists>start act. get_tables self day = Inr (start, act) \<and>
           ((sum_list start \<le> 0 \<and> g' = g) \<or>
            (\<exists>jump s0 g1 i s st row.
               start_of self start g = Inr ((jump, s0), g1) \<and> i < 144 \<and>
               run_loop act jump [0..<i] s0 ((replicate 144 0)[0 := s0]) g1 = Inr ((s, st), g') \<and>
               np_row_from2 act (jump * int i + s) = Inr row \<and> sum_list row \<le> 0))"
    by (rule run_InvalidInput)
next
  assume a: "get_tables self day = Inr (start, act) \<and> \<not> self_has_run self \<and> 0 < sum_list start \<and>
    (\<forall>ix. 0 \<le> ix \<and> ix < int (length start) \<longrightarrow>
               0 \<le> (if self_four_states self
                     then (self_residents self + 1) * (ix div 7) + ix mod 7 else ix) \<and>
               (if self_four_states self
                then (self_residents self + 1) * (ix div 7) + ix mod 7 else ix) < W) \<and>
    (\<forall>i<144. \<forall>s. 0 \<le> s \<and> s < W \<longrightarrow>
             (\<exists>row. np_row_from2 act
                      ((if self_four_states self then (self_residents self + 1) ^ 2 else 7) * int i + s)
                    = Inr row \<and> 0 < sum_list row \<and> int (length row) \<le> W))"
  show "\<exists>self'. run self day g = Inr (self', g\<lparr>pos := pos g + 145\<rparr>)"
    by (rule run_total_fresh [of self day start act W])
       (use a in \<open>blast+\<close>)
qed

theorem resident_count_unchecked_witness:
  "init data_ex1 (- 5) False = Inr sim_neg \<and> get_tables sim_neg ''wd'' = Inl IndexError \<and>
   run sim_neg ''wd'' rng_ex = Inl (IndexError, rng_ex) \<and> is_LookupError IndexError \<and>
   init data_ex_zero 0 False = Inr sim_zero \<and>
   run sim_zero ''wd'' rng_ex = Inl (InvalidInputError, rng_ex) \<and>
   get_tables sim_zero ''wd'' = Inr ([0], uniform_trans 1008 7) \<and> sum_list [0 :: rat] \<le> 0 \<and>
   init data_ex_neg (- 1) False = Inr sim_m1 \<and> self_residents sim_m1 = - 1 \<and>
   (\<exists>self'. run sim_m1 ''wd'' rng_ex = Inr (self', rng_ex\<lparr>pos := pos rng_ex + 145\<rparr>))"
proof -
  note a = resident_count_unchecked
    [of data_ex1 "- 5" False sim_neg "''wd''" IndexError rng_ex rng_ex "[]" "uniform_trans 0 0" 0]
  note b = resident_count_unchecked
    [of data_ex_zero 0 False sim_zero "''wd''" IndexError rng_ex rng_ex "[]" "uniform_trans 0 0" 0]
  note c = resident_count_unchecked
    [of data_ex_neg "- 1" False sim_m1 "''wd''" IndexError rng_ex rng_ex
        "[0, 0, 0, 1, 0, 0, 0]" "uniform_trans 1008 7" 7]
  have i: "init data_ex1 (- 5) False = Inr sim_neg" "init data_ex_zero 0 False = Inr sim_zero"
    "init data_ex_neg (- 1) False = Inr sim_m1"
    by (simp_all add: sim_neg_def sim_zero_def sim_m1_def init_def)
  have f: "\<not> self_has_run sim_m1" "\<not> self_four_states sim_m1" "self_residents sim_m1 = - 1"
    by (simp_all add: sim_m1_def init_def)
  from a get_tables_sim_neg
  have 1: "run sim_neg ''wd'' rng_ex = Inl (IndexError, rng_ex) \<and> is_LookupError IndexError"
    by blast
  from b run_sim_zero obtain start act where
    "get_tables sim_zero ''wd'' = Inr (start, act)" by blast
  then have 2: "get_tables sim_zero ''wd'' = Inr ([0], uniform_trans 1008 7)"
    by (simp add: get_tables_sim_zero)
  have st: "\<forall>ix. 0 \<le> ix \<and> ix < int (length [0, 0, 0, 1, 0, 0, 0 :: rat]) \<longrightarrow>
               0 \<le> (if self_four_states sim_m1
                     then (self_residents sim_m1 + 1) * (ix div 7) + ix mod 7 else ix) \<and>
               (if self_four_states sim_m1
                then (self_residents sim_m1 + 1) * (ix div 7) + ix mod 7 else ix) < 7"
    by (simp add: f)
  have rows: "\<forall>i<144. \<forall>s. 0 \<le> s \<and> s < 7 \<longrightarrow>
             (\<exists>row. np_row_from2 (uniform_trans 1008 7)
                      ((if self_four_states sim_m1 then (self_residents sim_m1 + 1) ^ 2 else 7) * int i + s)
                    = Inr row \<and> 0 < sum_list row \<and> int (length row) \<le> 7)"
    using rows7 by (simp only: f if_False)
  have "0 < sum_list [0, 0, 0, 1, 0, 0, 0 :: rat]" by simp
  with c get_tables_sim_m1 f(1) st rows
  have 3: "\<exists>self'. run sim_m1 ''wd'' rng_ex = Inr (self', rng_ex\<lparr>pos := pos rng_ex + 145\<rparr>)"
    by blast
  have "sum_list [0 :: rat] \<le> 0" by simp
  with 1 2 3 i f(3) get_tables_sim_neg run_sim_zero show ?thesis by blast
qed

text \<open>
  C2, as stated, fails.  With the resident count 0 and a provider that has a table
  under the key \<^verbatim>\<open>wd0\<close>, the constructor returns and \<^verbatim>\<open>run\<close> returns: nothing is raised.
\<close>

theorem resident_count_zero_runs:
  "self_residents sim0 < 1 \<and> init data_ex1 0 False = Inr sim0 \<and>
   run sim0 ''wd'' rng_ex = Inr (sim0_day1, rng_day1)"
proof -
  have "init data_ex1 0 False = Inr sim0" "self_residents sim0 < 1"
    by (simp_all add: sim0_def init_def)
  moreover have "run sim0 ''wd'' rng_ex = Inr (sim0_day1, rng_day1)"
    using run_sim0_ok by (auto simp: sim0_day1_def rng_day1_def rng_ex_def)
  ultimately show ?thesis by simp
qed

end
